theory Spec2Isabelle
  imports Complex_Main
begin

section \<open>The MTConnect adapter of Lemoine.Cnc.MTConnectAdapter\<close>

text \<open>
  The development follows \<^verbatim>\<open>adapter.cpp\<close>, \<^verbatim>\<open>adapter.hpp\<close> and
  \<^verbatim>\<open>PulseAdapter.cpp\<close>. The adapter is a C++/CLI \<^verbatim>\<open>ref class\<close>: its fields
  start zeroed, and its registry \<^verbatim>\<open>mDeviceData\<close> is a managed
  \<^verbatim>\<open>array<DeviceDatum*>\<close> of length 128, whose element accesses are
  bounds-checked by the runtime (an index outside the array raises
  IndexOutOfRangeException and the element is not touched).

  The classes \<^verbatim>\<open>DeviceDatum\<close>, \<^verbatim>\<open>StringBuffer\<close> and \<^verbatim>\<open>Server\<close> are
  included by the adapter but their files are not among the sources; their
  operations are modelled from the specification and marked so.
\<close>

subsection \<open>Exceptions\<close>

datatype error = IndexOutOfRange | NullPointer

text \<open>
  A method either returns with the object in a new state, or raises with the
  object in the state it had reached (the adapter outlives the exception).
\<close>

datatype 's outcome = Ok 's | Raise error 's

definition andThen :: "'s outcome \<Rightarrow> ('s \<Rightarrow> 's outcome) \<Rightarrow> 's outcome" where
  "andThen r f = (case r of Ok s \<Rightarrow> f s | Raise err s \<Rightarrow> Raise err s)"

subsection \<open>The environment\<close>

text \<open>
  Two things come from outside the program: the system clock read by
  \<^verbatim>\<open>StringBuffer::timestamp\<close> (the k-th reading is \<open>now k\<close>) and the decimal
  rendering of a double by the datum's \<^verbatim>\<open>toString\<close>.
\<close>

record env =
  now :: "nat \<Rightarrow> string"
  fmtDouble :: "real \<Rightarrow> string"

subsection \<open>DeviceDatum\<close>

datatype dvalue =
  UNAVAILABLE
  | Number real
  | Text string
  | eAVAILABLE
  | eACTIVE
  | eINTERRUPTED
  | eMANUAL
  | eAUTOMATIC

record DeviceDatum =
  mName :: string
  mChanged :: bool
  mHasValue :: bool
  mOwnLine :: bool
  mValue :: dvalue

text \<open>
  Modelled from the spec: the class DeviceDatum and its subclasses
  (device_datum.hpp) are missing. A datum has a name, \<open>hasValue\<close> ("becomes true
  on first write; never resets"), \<open>dirty\<close> ("set on every write (including the
  forced unavailable write), cleared exactly when the datum is serialized into a
  buffer"), and \<open>requiresOwnLine\<close> ("fixed per variant"). A datum that was never
  written holds no domain value; the model keeps the sentinel there.
\<close>

definition newDatum :: "bool \<Rightarrow> string \<Rightarrow> DeviceDatum" where
  "newDatum ownLine aName =
     \<lparr>mName = aName, mChanged = False, mHasValue = False, mOwnLine = ownLine,
      mValue = UNAVAILABLE\<rparr>"

definition changed :: "DeviceDatum \<Rightarrow> bool" where
  "changed d = mChanged d"

definition hasInitialValue :: "DeviceDatum \<Rightarrow> bool" where
  "hasInitialValue d = mHasValue d"

definition requiresFlush :: "DeviceDatum \<Rightarrow> bool" where
  "requiresFlush d = mOwnLine d"

definition setValue :: "dvalue \<Rightarrow> DeviceDatum \<Rightarrow> DeviceDatum" where
  "setValue aValue d = d\<lparr>mValue := aValue, mChanged := True, mHasValue := True\<rparr>"

definition available :: "DeviceDatum \<Rightarrow> DeviceDatum" where
  "available d = setValue eAVAILABLE d"

definition datum_unavailable :: "DeviceDatum \<Rightarrow> DeviceDatum" where
  "datum_unavailable d = setValue UNAVAILABLE d"

text \<open>
  Modelled from the spec: the wire text of a datum is a field group "carrying
  the datum's name and current serialized value(s)" in the \<open>|\<close> style; the labels
  are those of the spec's table of variants.
\<close>

definition valueText :: "env \<Rightarrow> dvalue \<Rightarrow> string" where
  "valueText e aValue =
     (case aValue of
        UNAVAILABLE \<Rightarrow> ''UNAVAILABLE''
      | Number r \<Rightarrow> fmtDouble e r
      | Text t \<Rightarrow> t
      | eAVAILABLE \<Rightarrow> ''AVAILABLE''
      | eACTIVE \<Rightarrow> ''ACTIVE''
      | eINTERRUPTED \<Rightarrow> ''INTERRUPTED''
      | eMANUAL \<Rightarrow> ''MANUAL''
      | eAUTOMATIC \<Rightarrow> ''AUTOMATIC'')"

definition toString :: "env \<Rightarrow> DeviceDatum \<Rightarrow> string" where
  "toString e d = ''|'' @ mName d @ ''|'' @ valueText e (mValue d)"

subsection \<open>StringBuffer\<close>

record StringBuffer =
  mText :: string
  mTimestamp :: string

text \<open>
  Modelled from the spec: the class StringBuffer (string_buffer.hpp) is missing.
  The cycle buffer "holds accumulated serialized text for the in-progress
  transmission plus a leading timestamp", each message "begins with" the
  timestamp "followed by one or more field groups", and a flush is a "no-op if
  the buffer is empty". So stamping records the time beside the text, the stamp
  leads the text from the first piece appended on, and a buffer that was only
  stamped is still empty.
\<close>

definition newStringBuffer :: StringBuffer where
  "newStringBuffer = \<lparr>mText = [], mTimestamp = []\<rparr>"

definition timestamp :: "string \<Rightarrow> StringBuffer \<Rightarrow> StringBuffer" where
  "timestamp t b = b\<lparr>mTimestamp := t\<rparr>"

definition append_text :: "string \<Rightarrow> StringBuffer \<Rightarrow> StringBuffer" where
  "append_text aString b =
     b\<lparr>mText := (if mText b = [] then mTimestamp b @ aString else mText b @ aString)\<rparr>"

definition reset :: "StringBuffer \<Rightarrow> StringBuffer" where
  "reset b = b\<lparr>mText := []\<rparr>"

definition length_text :: "StringBuffer \<Rightarrow> nat" where
  "length_text b = length (mText b)"

text \<open>\<^verbatim>\<open>DeviceDatum::append(StringBuffer&)\<close>: serialize into the buffer, clear dirty.\<close>

definition append_datum :: "env \<Rightarrow> DeviceDatum \<Rightarrow> StringBuffer \<Rightarrow> DeviceDatum \<times> StringBuffer" where
  "append_datum e d b = (d\<lparr>mChanged := False\<rparr>, append_text (toString e d) b)"

subsection \<open>Server\<close>

record Server =
  sPort :: int
  sHeartbeat :: int
  clients :: "nat list"
  outbox :: "(nat list \<times> string) list"

text \<open>
  Modelled from the spec: the class Server (server.hpp) is the external
  connection collaborator, with "operations to accept new clients, read pending
  inbound bytes, broadcast a buffer, and report current client count". Clients
  are numbered; \<open>outbox\<close> logs every broadcast with the clients it went to.
  Which clients arrive and which are found gone while reading is input;
  \<^verbatim>\<open>connectToClients\<close> hands back the clients it has just accepted (the null
  pointer that \<^verbatim>\<open>Start\<close> tests for when there are none).
\<close>

definition newServer :: "int \<Rightarrow> int \<Rightarrow> Server" where
  "newServer aPort aHeartbeat =
     \<lparr>sPort = aPort, sHeartbeat = aHeartbeat, clients = [], outbox = []\<rparr>"

definition connectToClients :: "nat list \<Rightarrow> Server \<Rightarrow> Server \<times> nat list" where
  "connectToClients accepted sv = (sv\<lparr>clients := clients sv @ accepted\<rparr>, accepted)"

definition readFromClients :: "nat list \<Rightarrow> Server \<Rightarrow> Server" where
  "readFromClients gone sv = sv\<lparr>clients := filter (\<lambda>c. c \<notin> set gone) (clients sv)\<rparr>"

definition numClients :: "Server \<Rightarrow> nat" where
  "numClients sv = length (clients sv)"

definition sendToClients :: "StringBuffer \<Rightarrow> Server \<Rightarrow> Server" where
  "sendToClients b sv = sv\<lparr>outbox := outbox sv @ [(clients sv, mText b)]\<rparr>"

text \<open>The lines a client has received, oldest first.\<close>

definition received :: "nat \<Rightarrow> Server \<Rightarrow> string list" where
  "received c sv = map snd (filter (\<lambda>m. c \<in> set (fst m)) (outbox sv))"

subsection \<open>Adapter\<close>

text \<open>
  The fields of \<^verbatim>\<open>adapter.hpp\<close>. Pointers to datums are addresses into \<open>heap\<close>,
  the objects made by \<^verbatim>\<open>new\<close> (an address is an index, a null pointer is
  \<open>None\<close>). \<open>ticks\<close> counts the clock readings taken so far and \<open>disconnects\<close>
  the runs of the \<^verbatim>\<open>clientsDisconnected\<close> hook.
\<close>

record Adapter =
  mServer :: "Server option"
  mBuffer :: StringBuffer
  mDeviceData :: "nat option list"
  mNumDeviceData :: nat
  mPort :: int
  mDisableFlush :: bool
  mHeartbeatFrequency :: int
  heap :: "DeviceDatum list"
  ticks :: nat
  disconnects :: nat

definition newAdapter :: Adapter where
  "newAdapter =
     \<lparr>mServer = None, mBuffer = newStringBuffer, mDeviceData = replicate 128 None,
      mNumDeviceData = 0, mPort = 7878, mDisableFlush = False,
      mHeartbeatFrequency = 10000, heap = [], ticks = 0, disconnects = 0\<rparr>"

text \<open>
  \<^verbatim>\<open>mDeviceData[mNumDeviceData++] = &aValue; mDeviceData[mNumDeviceData] = 0;\<close>
  The counter is advanced when the index is computed; each store is checked
  against the length of the array.
\<close>

definition addDatum :: "nat \<Rightarrow> 'a Adapter_scheme \<Rightarrow> 'a Adapter_scheme outcome" where
  "addDatum aValue s =
     (let n = mNumDeviceData s;
          s1 = s\<lparr>mNumDeviceData := n + 1\<rparr>
      in if length (mDeviceData s1) \<le> n then Raise IndexOutOfRange s1
         else
           let s2 = s1\<lparr>mDeviceData := (mDeviceData s1)[n := Some aValue]\<rparr>
           in if length (mDeviceData s2) \<le> mNumDeviceData s2 then Raise IndexOutOfRange s2
              else Ok (s2\<lparr>mDeviceData := (mDeviceData s2)[mNumDeviceData s2 := None]\<rparr>))"

text \<open>\<^verbatim>\<open>mBuffer->timestamp()\<close>: one more reading of the clock.\<close>

definition stampBuffer :: "env \<Rightarrow> 'a Adapter_scheme \<Rightarrow> 'a Adapter_scheme" where
  "stampBuffer e s =
     s\<lparr>mBuffer := timestamp (now e (ticks s)) (mBuffer s), ticks := ticks s + 1\<rparr>"

definition sendBuffer :: "'a Adapter_scheme \<Rightarrow> 'a Adapter_scheme" where
  "sendBuffer s =
     (case mServer s of
        None \<Rightarrow> s
      | Some sv \<Rightarrow>
          if 0 < length_text (mBuffer s) then
            let b = append_text [CHR 0x0A] (mBuffer s)
            in s\<lparr>mServer := Some (sendToClients b sv), mBuffer := reset b\<rparr>
          else s)"

definition sendDatum :: "env \<Rightarrow> nat \<Rightarrow> 'a Adapter_scheme \<Rightarrow> 'a Adapter_scheme outcome" where
  "sendDatum e aValue s =
     (if length (heap s) \<le> aValue then Raise NullPointer s
      else
        let d = heap s ! aValue;
            s1 = (if requiresFlush d then sendBuffer s else s);
            (d', b') = append_datum e d (mBuffer s1);
            s2 = s1\<lparr>mBuffer := b', heap := (heap s1)[aValue := d']\<rparr>
        in Ok (if requiresFlush d then sendBuffer s2 else s2))"

text \<open>
  \<^verbatim>\<open>DeviceDatum *value = mDeviceData[i];\<close> followed by a call through
  \<open>value\<close>: the index is checked by the runtime, the pointer must be an object.
\<close>

definition deviceDatumAt :: "nat \<Rightarrow> 'a Adapter_scheme \<Rightarrow> error + nat" where
  "deviceDatumAt i s =
     (if length (mDeviceData s) \<le> i then Inl IndexOutOfRange
      else case mDeviceData s ! i of
        None \<Rightarrow> Inl NullPointer
      | Some p \<Rightarrow> if p < length (heap s) then Inr p else Inl NullPointer)"

text \<open>
  The loop shared by \<^verbatim>\<open>sendInitialData\<close> and \<^verbatim>\<open>sendChangedData\<close>:
  \<^verbatim>\<open>for (i = 0; i < mNumDeviceData; i++) { value = mDeviceData[i]; if (value->test()) sendDatum(value); }\<close>
  over the indices still to visit (the body never changes \<open>mNumDeviceData\<close>).
\<close>

fun sendEach ::
  "env \<Rightarrow> (DeviceDatum \<Rightarrow> bool) \<Rightarrow> nat list \<Rightarrow> 'a Adapter_scheme \<Rightarrow> 'a Adapter_scheme outcome"
where
  "sendEach e test [] s = Ok s"
| "sendEach e test (i # rest) s =
     (case deviceDatumAt i s of
        Inl err \<Rightarrow> Raise err s
      | Inr aValue \<Rightarrow>
          andThen (if test (heap s ! aValue) then sendDatum e aValue s else Ok s)
                  (sendEach e test rest))"

definition sendInitialData :: "env \<Rightarrow> nat \<Rightarrow> 'a Adapter_scheme \<Rightarrow> 'a Adapter_scheme outcome" where
  "sendInitialData e aClient s =
     (let s1 = stampBuffer e (s\<lparr>mDisableFlush := True\<rparr>)
      in andThen (sendEach e hasInitialValue [0..<mNumDeviceData s1] s1)
           (\<lambda>s2. Ok ((sendBuffer s2)\<lparr>mDisableFlush := False\<rparr>)))"

definition sendChangedData :: "env \<Rightarrow> 'a Adapter_scheme \<Rightarrow> 'a Adapter_scheme outcome" where
  "sendChangedData e s =
     andThen (sendEach e changed [0..<mNumDeviceData s] s) (\<lambda>s1. Ok (sendBuffer s1))"

definition flush :: "env \<Rightarrow> 'a Adapter_scheme \<Rightarrow> 'a Adapter_scheme outcome" where
  "flush e s =
     (if \<not> mDisableFlush s then
        andThen (sendChangedData e s)
          (\<lambda>s1. Ok (stampBuffer e (s1\<lparr>mBuffer := reset (mBuffer s1)\<rparr>)))
      else Ok s)"

definition clientsDisconnected :: "'a Adapter_scheme \<Rightarrow> 'a Adapter_scheme" where
  "clientsDisconnected s = s\<lparr>disconnects := disconnects s + 1\<rparr>"

fun unavailableEach :: "nat list \<Rightarrow> 'a Adapter_scheme \<Rightarrow> 'a Adapter_scheme outcome" where
  "unavailableEach [] s = Ok s"
| "unavailableEach (i # rest) s =
     (case deviceDatumAt i s of
        Inl err \<Rightarrow> Raise err s
      | Inr aValue \<Rightarrow>
          unavailableEach rest
            (s\<lparr>heap := (heap s)[aValue := datum_unavailable (heap s ! aValue)]\<rparr>))"

definition unavailable :: "env \<Rightarrow> 'a Adapter_scheme \<Rightarrow> 'a Adapter_scheme outcome" where
  "unavailable e s = andThen (unavailableEach [0..<mNumDeviceData s] s) (flush e)"

text \<open>The loop of \<^verbatim>\<open>Start\<close> over the newly accepted clients.\<close>

fun syncEach :: "env \<Rightarrow> nat list \<Rightarrow> 'a Adapter_scheme \<Rightarrow> 'a Adapter_scheme outcome" where
  "syncEach e [] s = Ok s"
| "syncEach e (aClient # rest) s = andThen (sendInitialData e aClient s) (syncEach e rest)"

text \<open>
  \<^verbatim>\<open>Start\<close>, given the clients the server accepts in this call and those it
  finds gone while reading. \<open>hasClients\<close> is the local variable of the source.
\<close>

definition Start ::
  "env \<Rightarrow> nat list \<Rightarrow> nat list \<Rightarrow> 'a Adapter_scheme \<Rightarrow> 'a Adapter_scheme outcome"
where
  "Start e accepted gone s =
     (let sv0 = (case mServer s of
                   None \<Rightarrow> newServer (mPort s) (mHeartbeatFrequency s)
                 | Some sv \<Rightarrow> sv);
          (sv1, newClients) = connectToClients accepted sv0;
          hasClients = (newClients \<noteq> [])
      in andThen (syncEach e newClients (s\<lparr>mServer := Some sv1\<rparr>))
           (\<lambda>s1. case mServer s1 of
                    None \<Rightarrow> Raise NullPointer s1
                  | Some sv2 \<Rightarrow>
                      let sv3 = readFromClients gone sv2;
                          s2 = s1\<lparr>mServer := Some sv3\<rparr>
                      in if 0 < numClients sv3 then Ok (stampBuffer e s2)
                         else if hasClients then Ok (clientsDisconnected s2)
                         else Ok s2))"

definition Finish :: "env \<Rightarrow> 'a Adapter_scheme \<Rightarrow> 'a Adapter_scheme outcome" where
  "Finish e s =
     (case mServer s of
        None \<Rightarrow> Raise NullPointer s
      | Some sv \<Rightarrow>
          if 0 < numClients sv then
            andThen (sendChangedData e s) (\<lambda>s1. Ok (s1\<lparr>mBuffer := reset (mBuffer s1)\<rparr>))
          else Ok s)"

subsection \<open>PulseAdapter\<close>

text \<open>
  The pointer members of \<^verbatim>\<open>PulseAdapter.h\<close> (and \<open>spindleLoad\<close>, which
  \<^verbatim>\<open>PulseAdapter.cpp\<close> uses), named after them, as one family of fields.
\<close>

datatype member =
  p_availability | p_execution | p_mode | p_programName
  | p_x | p_y | p_z | p_u | p_v | p_w | p_a | p_b | p_c
  | p_feedrate | p_spindleLoad | p_spindleSpeed
  | p_feedrateOverride | p_spindleSpeedOverride

record PulseAdapter = Adapter +
  members :: "member \<Rightarrow> nat option"

definition newPulseAdapter :: PulseAdapter where
  "newPulseAdapter =
     \<lparr>mServer = None, mBuffer = newStringBuffer, mDeviceData = replicate 128 None,
      mNumDeviceData = 0, mPort = 7878, mDisableFlush = False,
      mHeartbeatFrequency = 10000, heap = [], ticks = 0, disconnects = 0,
      members = (\<lambda>m. None)\<rparr>"

text \<open>
  Modelled from the spec: the constructors of the datum classes used here. None
  of them asks for a line of its own (the spec reserves that to "condition/alarm-like
  items").
\<close>

definition Sample :: "string \<Rightarrow> DeviceDatum" where
  "Sample aName = newDatum False aName"

definition Event :: "string \<Rightarrow> DeviceDatum" where
  "Event aName = newDatum False aName"

definition Availability :: "string \<Rightarrow> DeviceDatum" where
  "Availability aName = newDatum False aName"

definition Execution :: "string \<Rightarrow> DeviceDatum" where
  "Execution aName = newDatum False aName"

definition ControllerMode :: "string \<Rightarrow> DeviceDatum" where
  "ControllerMode aName = newDatum False aName"

text \<open>\<^verbatim>\<open>if (NULL == m) { m = new D (name); addDatum (*m); }\<close>\<close>

definition ensure :: "member \<Rightarrow> DeviceDatum \<Rightarrow> PulseAdapter \<Rightarrow> PulseAdapter outcome" where
  "ensure m fresh s =
     (case members s m of
        Some p \<Rightarrow> Ok s
      | None \<Rightarrow>
          let p = length (heap s)
          in addDatum p (s\<lparr>heap := heap s @ [fresh], members := (members s)(m := Some p)\<rparr>))"

text \<open>\<^verbatim>\<open>m->f (...)\<close>: a call through a pointer member.\<close>

definition invoke :: "member \<Rightarrow> (DeviceDatum \<Rightarrow> DeviceDatum) \<Rightarrow> PulseAdapter \<Rightarrow> PulseAdapter outcome" where
  "invoke m f s =
     (case members s m of
        None \<Rightarrow> Raise NullPointer s
      | Some p \<Rightarrow>
          if p < length (heap s) then Ok (s\<lparr>heap := (heap s)[p := f (heap s ! p)]\<rparr>)
          else Raise NullPointer s)"

definition Available_set :: "bool \<Rightarrow> PulseAdapter \<Rightarrow> PulseAdapter outcome" where
  "Available_set aValue s =
     andThen (ensure p_availability (Availability ''avail'') s)
       (invoke p_availability (if aValue then available else datum_unavailable))"

definition Error_set :: "env \<Rightarrow> bool \<Rightarrow> PulseAdapter \<Rightarrow> PulseAdapter outcome" where
  "Error_set e aValue s = (if aValue then unavailable e s else Ok s)"

definition ErrorCode_set :: "env \<Rightarrow> int \<Rightarrow> PulseAdapter \<Rightarrow> PulseAdapter outcome" where
  "ErrorCode_set e aValue s = (if aValue = 0 then Error_set e False s else Error_set e True s)"

text \<open>
  The body every channel setter shares: create and register the datum on first
  use, \<^verbatim>\<open>setValue\<close>, then \<^verbatim>\<open>Available = true\<close>.
\<close>

definition writeChannel :: "member \<Rightarrow> DeviceDatum \<Rightarrow> dvalue \<Rightarrow> PulseAdapter \<Rightarrow> PulseAdapter outcome" where
  "writeChannel m fresh aValue s =
     andThen (andThen (ensure m fresh s) (invoke m (setValue aValue))) (Available_set True)"

definition X_set :: "real \<Rightarrow> PulseAdapter \<Rightarrow> PulseAdapter outcome" where
  "X_set aValue = writeChannel p_x (Sample ''Xact'') (Number aValue)"

definition Y_set :: "real \<Rightarrow> PulseAdapter \<Rightarrow> PulseAdapter outcome" where
  "Y_set aValue = writeChannel p_y (Sample ''Yact'') (Number aValue)"

definition Z_set :: "real \<Rightarrow> PulseAdapter \<Rightarrow> PulseAdapter outcome" where
  "Z_set aValue = writeChannel p_z (Sample ''Zact'') (Number aValue)"

definition U_set :: "real \<Rightarrow> PulseAdapter \<Rightarrow> PulseAdapter outcome" where
  "U_set aValue = writeChannel p_u (Sample ''Uact'') (Number aValue)"

definition V_set :: "real \<Rightarrow> PulseAdapter \<Rightarrow> PulseAdapter outcome" where
  "V_set aValue = writeChannel p_v (Sample ''Vact'') (Number aValue)"

definition W_set :: "real \<Rightarrow> PulseAdapter \<Rightarrow> PulseAdapter outcome" where
  "W_set aValue = writeChannel p_w (Sample ''Wact'') (Number aValue)"

definition A_set :: "real \<Rightarrow> PulseAdapter \<Rightarrow> PulseAdapter outcome" where
  "A_set aValue = writeChannel p_a (Sample ''Apos'') (Number aValue)"

definition B_set :: "real \<Rightarrow> PulseAdapter \<Rightarrow> PulseAdapter outcome" where
  "B_set aValue = writeChannel p_b (Sample ''Bpos'') (Number aValue)"

definition C_set :: "real \<Rightarrow> PulseAdapter \<Rightarrow> PulseAdapter outcome" where
  "C_set aValue = writeChannel p_c (Sample ''Cpos'') (Number aValue)"

definition Feedrate_set :: "real \<Rightarrow> PulseAdapter \<Rightarrow> PulseAdapter outcome" where
  "Feedrate_set aValue = writeChannel p_feedrate (Sample ''path_feedrate'') (Number aValue)"

definition SpindleLoad_set :: "real \<Rightarrow> PulseAdapter \<Rightarrow> PulseAdapter outcome" where
  "SpindleLoad_set aValue = writeChannel p_spindleLoad (Sample ''spindle_load'') (Number aValue)"

definition SpindleSpeed_set :: "real \<Rightarrow> PulseAdapter \<Rightarrow> PulseAdapter outcome" where
  "SpindleSpeed_set aValue = writeChannel p_spindleSpeed (Sample ''spindle_speed'') (Number aValue)"

definition Manual_set :: "bool \<Rightarrow> PulseAdapter \<Rightarrow> PulseAdapter outcome" where
  "Manual_set aValue =
     writeChannel p_mode (ControllerMode ''mode'') (if aValue then eMANUAL else eAUTOMATIC)"

text \<open>The overrides arrive as \<^verbatim>\<open>long\<close> and are stored as the double of the same value.\<close>

definition FeedrateOverride_set :: "int \<Rightarrow> PulseAdapter \<Rightarrow> PulseAdapter outcome" where
  "FeedrateOverride_set aValue =
     writeChannel p_feedrateOverride (Sample ''feed_ovr'') (Number (of_int aValue))"

definition SpindleSpeedOverride_set :: "int \<Rightarrow> PulseAdapter \<Rightarrow> PulseAdapter outcome" where
  "SpindleSpeedOverride_set aValue =
     writeChannel p_spindleSpeedOverride (Sample ''SspeedOvr'') (Number (of_int aValue))"

definition Running_set :: "bool \<Rightarrow> PulseAdapter \<Rightarrow> PulseAdapter outcome" where
  "Running_set aValue =
     writeChannel p_execution (Execution ''execution'') (if aValue then eACTIVE else eINTERRUPTED)"

definition ProgramName_set :: "string \<Rightarrow> PulseAdapter \<Rightarrow> PulseAdapter outcome" where
  "ProgramName_set aValue = writeChannel p_programName (Event ''program'') (Text aValue)"

text \<open>
  The producer-facing writes of the monitored channels, as data: which setter a
  write runs, the member it goes through and the value it stores.
\<close>

datatype setter =
  SetX real | SetY real | SetZ real | SetU real | SetV real | SetW real
  | SetA real | SetB real | SetC real
  | SetFeedrate real | SetSpindleSpeed real | SetSpindleLoad real
  | SetFeedrateOverride int | SetSpindleSpeedOverride int
  | SetManual bool | SetRunning bool | SetProgramName string

fun perform :: "setter \<Rightarrow> PulseAdapter \<Rightarrow> PulseAdapter outcome" where
  "perform (SetX r) = X_set r"
| "perform (SetY r) = Y_set r"
| "perform (SetZ r) = Z_set r"
| "perform (SetU r) = U_set r"
| "perform (SetV r) = V_set r"
| "perform (SetW r) = W_set r"
| "perform (SetA r) = A_set r"
| "perform (SetB r) = B_set r"
| "perform (SetC r) = C_set r"
| "perform (SetFeedrate r) = Feedrate_set r"
| "perform (SetSpindleSpeed r) = SpindleSpeed_set r"
| "perform (SetSpindleLoad r) = SpindleLoad_set r"
| "perform (SetFeedrateOverride k) = FeedrateOverride_set k"
| "perform (SetSpindleSpeedOverride k) = SpindleSpeedOverride_set k"
| "perform (SetManual f) = Manual_set f"
| "perform (SetRunning f) = Running_set f"
| "perform (SetProgramName t) = ProgramName_set t"

fun channel :: "setter \<Rightarrow> member" where
  "channel (SetX r) = p_x"
| "channel (SetY r) = p_y"
| "channel (SetZ r) = p_z"
| "channel (SetU r) = p_u"
| "channel (SetV r) = p_v"
| "channel (SetW r) = p_w"
| "channel (SetA r) = p_a"
| "channel (SetB r) = p_b"
| "channel (SetC r) = p_c"
| "channel (SetFeedrate r) = p_feedrate"
| "channel (SetSpindleSpeed r) = p_spindleSpeed"
| "channel (SetSpindleLoad r) = p_spindleLoad"
| "channel (SetFeedrateOverride k) = p_feedrateOverride"
| "channel (SetSpindleSpeedOverride k) = p_spindleSpeedOverride"
| "channel (SetManual f) = p_mode"
| "channel (SetRunning f) = p_execution"
| "channel (SetProgramName t) = p_programName"

fun written :: "setter \<Rightarrow> dvalue" where
  "written (SetX r) = Number r"
| "written (SetY r) = Number r"
| "written (SetZ r) = Number r"
| "written (SetU r) = Number r"
| "written (SetV r) = Number r"
| "written (SetW r) = Number r"
| "written (SetA r) = Number r"
| "written (SetB r) = Number r"
| "written (SetC r) = Number r"
| "written (SetFeedrate r) = Number r"
| "written (SetSpindleSpeed r) = Number r"
| "written (SetSpindleLoad r) = Number r"
| "written (SetFeedrateOverride k) = Number (of_int k)"
| "written (SetSpindleSpeedOverride k) = Number (of_int k)"
| "written (SetManual f) = (if f then eMANUAL else eAUTOMATIC)"
| "written (SetRunning f) = (if f then eACTIVE else eINTERRUPTED)"
| "written (SetProgramName t) = Text t"

subsection \<open>The registry and the line framing, as the statements read them\<close>

text \<open>The pointers stored at the given indices, and the registered ones in order.\<close>

definition pointersAt :: "nat list \<Rightarrow> 'a Adapter_scheme \<Rightarrow> nat list" where
  "pointersAt ixs s = map (\<lambda>i. the (mDeviceData s ! i)) ixs"

definition registry :: "'a Adapter_scheme \<Rightarrow> nat list" where
  "registry s = pointersAt [0..<mNumDeviceData s] s"

text \<open>
  A registry is sound when every index below the counter holds a pointer to an
  object and no object is registered twice.
\<close>

definition soundAt :: "nat list \<Rightarrow> 'a Adapter_scheme \<Rightarrow> bool" where
  "soundAt ixs s =
     (list_all (\<lambda>i. case deviceDatumAt i s of Inl err \<Rightarrow> False | Inr p \<Rightarrow> True) ixs
      \<and> distinct (pointersAt ixs s))"

definition sound :: "'a Adapter_scheme \<Rightarrow> bool" where
  "sound s = soundAt [0..<mNumDeviceData s] s"

text \<open>The registered datums that pass a test, in registration order.\<close>

definition chosen :: "(DeviceDatum \<Rightarrow> bool) \<Rightarrow> nat list \<Rightarrow> DeviceDatum list \<Rightarrow> nat list" where
  "chosen test ps h = filter (\<lambda>p. test (h ! p)) ps"

definition datums :: "nat list \<Rightarrow> DeviceDatum list \<Rightarrow> DeviceDatum list" where
  "datums ps h = map (\<lambda>p. h ! p) ps"

text \<open>The heap once the datums at the given addresses were serialized.\<close>

definition serialized :: "nat list \<Rightarrow> DeviceDatum list \<Rightarrow> DeviceDatum list" where
  "serialized ps h =
     map (\<lambda>p. if p \<in> set ps then (h ! p)\<lparr>mChanged := False\<rparr> else h ! p) [0..<length h]"

text \<open>The heap once the datums at the given addresses were forced unavailable.\<close>

definition forced :: "nat list \<Rightarrow> DeviceDatum list \<Rightarrow> DeviceDatum list" where
  "forced ps h =
     map (\<lambda>p. if p \<in> set ps then datum_unavailable (h ! p) else h ! p) [0..<length h]"

text \<open>
  The framing the specification describes: datums sent one after the other are
  batched on one line, except that a datum requiring its own line closes the
  line before it and the line it is on. \<open>pending\<close> are the datums already in
  the buffer.
\<close>

fun framesFrom :: "DeviceDatum list \<Rightarrow> DeviceDatum list \<Rightarrow> DeviceDatum list list" where
  "framesFrom pending [] = (if pending = [] then [] else [pending])"
| "framesFrom pending (d # ds) =
     (if mOwnLine d then (if pending = [] then [] else [pending]) @ [d] # framesFrom [] ds
      else framesFrom (pending @ [d]) ds)"

definition frames :: "DeviceDatum list \<Rightarrow> DeviceDatum list list" where
  "frames ds = framesFrom [] ds"

text \<open>The text of a buffer holding the given datums, and the line it is sent as.\<close>

definition body :: "env \<Rightarrow> string \<Rightarrow> DeviceDatum list \<Rightarrow> string" where
  "body e stamp ds = (if ds = [] then [] else stamp @ concat (map (toString e) ds))"

definition line :: "env \<Rightarrow> string \<Rightarrow> DeviceDatum list \<Rightarrow> string" where
  "line e stamp ds = stamp @ concat (map (toString e) ds) @ [CHR 0x0A]"

text \<open>The broadcasts of the given lines to the clients of a server.\<close>

definition broadcast :: "Server \<Rightarrow> string list \<Rightarrow> Server" where
  "broadcast sv ms = sv\<lparr>outbox := outbox sv @ map (\<lambda>m. (clients sv, m)) ms\<rparr>"

text \<open>
  The registered datums that are dirty, and those that have a value, in
  registration order: their addresses and the objects themselves.
\<close>

definition changedPointers :: "'a Adapter_scheme \<Rightarrow> nat list" where
  "changedPointers s = chosen changed (registry s) (heap s)"

definition changedData :: "'a Adapter_scheme \<Rightarrow> DeviceDatum list" where
  "changedData s = datums (changedPointers s) (heap s)"

definition initialPointers :: "'a Adapter_scheme \<Rightarrow> nat list" where
  "initialPointers s = chosen hasInitialValue (registry s) (heap s)"

definition initialData :: "'a Adapter_scheme \<Rightarrow> DeviceDatum list" where
  "initialData s = datums (initialPointers s) (heap s)"

text \<open>
  The lines of the full syncs that one \<^verbatim>\<open>Start\<close> runs, one sync for each client
  it has accepted: the k-th sync is stamped with the k-th clock reading taken
  from \<open>t\<close> on and frames the datums that have a value.
\<close>

definition syncLines :: "env \<Rightarrow> nat \<Rightarrow> nat \<Rightarrow> DeviceDatum list \<Rightarrow> string list" where
  "syncLines e t n ds = concat (map (\<lambda>k. map (line e (now e (t + k))) (frames ds)) [0..<n])"

text \<open>A datum as it is on the wire: the dirty flag is not part of its text.\<close>

definition erase :: "DeviceDatum \<Rightarrow> DeviceDatum" where
  "erase d = d\<lparr>mChanged := False\<rparr>"

text \<open>
  The adapter between two of its operations: the registry is sound, the buffer
  holds no text and the full sync is not under way.
\<close>

definition idle :: "'a Adapter_scheme \<Rightarrow> bool" where
  "idle s = (sound s \<and> mText (mBuffer s) = [] \<and> \<not> mDisableFlush s)"

text \<open>The server \<^verbatim>\<open>Start\<close> works with: the one at hand, or a new one.\<close>

definition serverOf :: "'a Adapter_scheme \<Rightarrow> Server" where
  "serverOf s =
     (case mServer s of None \<Rightarrow> newServer (mPort s) (mHeartbeatFrequency s) | Some sv \<Rightarrow> sv)"

text \<open>
  The pointer members of a PulseAdapter are wired when each one that is set
  points to an object of the heap that is registered, and no two of them point
  to the same object.
\<close>

definition allMembers :: "member list" where
  "allMembers =
     [p_availability, p_execution, p_mode, p_programName,
      p_x, p_y, p_z, p_u, p_v, p_w, p_a, p_b, p_c,
      p_feedrate, p_spindleLoad, p_spindleSpeed,
      p_feedrateOverride, p_spindleSpeedOverride]"

definition wired :: "PulseAdapter \<Rightarrow> bool" where
  "wired s =
     list_all
       (\<lambda>m. case members s m of
               None \<Rightarrow> True
             | Some p \<Rightarrow>
                 p < length (heap s) \<and> p \<in> set (registry s)
                 \<and> list_all (\<lambda>m'. members s m' \<noteq> Some p \<or> m' = m) allMembers)
       allMembers"

text \<open>
  A PulseAdapter registers nothing but the datums of its members: the array has
  its 128 slots and the counter is the number of members that are set. It is
  ready when, besides, it is idle and wired; this is how the constructor leaves
  it and how every write leaves it again.
\<close>

definition tidy :: "PulseAdapter \<Rightarrow> bool" where
  "tidy s =
     (length (mDeviceData s) = 128
      \<and> mNumDeviceData s = length (filter (\<lambda>m. members s m \<noteq> None) allMembers))"

definition ready :: "PulseAdapter \<Rightarrow> bool" where
  "ready s = (idle s \<and> wired s \<and> tidy s)"

subsection \<open>Sample states\<close>

definition sampleEnv :: env where
  "sampleEnv =
     \<lparr>now = (\<lambda>k. if k = 0 then ''T0'' else if k = 1 then ''T1'' else ''T2''),
      fmtDouble = (\<lambda>r. ''1.5'')\<rparr>"


text \<open>
  An adapter in the middle of a cycle, one client connected: a sample that
  changed, an alarm-like datum that changed and asks for its own line, and the
  availability, sent earlier and unchanged since.
\<close>

definition sampleServer :: Server where
  "sampleServer = \<lparr>sPort = 7878, sHeartbeat = 10000, clients = [1], outbox = []\<rparr>"

definition sampleAdapter :: Adapter where
  "sampleAdapter =
     \<lparr>mServer = Some sampleServer,
      mBuffer = \<lparr>mText = [], mTimestamp = ''T0''\<rparr>,
      mDeviceData = [Some 0, Some 1, Some 2] @ replicate 125 None,
      mNumDeviceData = 3, mPort = 7878, mDisableFlush = False,
      mHeartbeatFrequency = 10000,
      heap = [\<lparr>mName = ''Xact'', mChanged = True, mHasValue = True, mOwnLine = False,
                mValue = Number 1.5\<rparr>,
              \<lparr>mName = ''alarm'', mChanged = True, mHasValue = True, mOwnLine = True,
                mValue = Text ''HIGH''\<rparr>,
              \<lparr>mName = ''avail'', mChanged = False, mHasValue = True, mOwnLine = False,
                mValue = eAVAILABLE\<rparr>],
      ticks = 1, disconnects = 0\<rparr>"

text \<open>A new adapter after its first \<^verbatim>\<open>Start\<close>, in which client 1 was accepted.\<close>

definition startedAdapter :: Adapter where
  "startedAdapter =
     newAdapter\<lparr>mServer := Some sampleServer,
                mBuffer := \<lparr>mText = [], mTimestamp = ''T1''\<rparr>, ticks := 2\<rparr>"

text \<open>The adapter in the middle of a send, the sample already in the buffer.\<close>

definition pendingAdapter :: Adapter where
  "pendingAdapter = sampleAdapter\<lparr>mBuffer := \<lparr>mText = ''T0|Xact|1.5'', mTimestamp = ''T0''\<rparr>\<rparr>"

text \<open>
  The sample adapter once \<^verbatim>\<open>Start\<close> has accepted client 2 and nobody left, and
  the sample adapter without its alarm-like datum.
\<close>

definition syncedAdapter :: Adapter where
  "syncedAdapter =
     sampleAdapter\<lparr>mServer := Some (sampleServer\<lparr>clients := [1, 2],
                        outbox := [([1, 2], ''T1|Xact|1.5'' @ [CHR 0x0A]),
                                   ([1, 2], ''T1|alarm|HIGH'' @ [CHR 0x0A]),
                                   ([1, 2], ''T1|avail|AVAILABLE'' @ [CHR 0x0A])]\<rparr>),
                   mBuffer := \<lparr>mText = [], mTimestamp = ''T2''\<rparr>,
                   heap := map (\<lambda>d. d\<lparr>mChanged := False\<rparr>) (heap sampleAdapter),
                   ticks := 3\<rparr>"

definition plainAdapter :: Adapter where
  "plainAdapter =
     sampleAdapter\<lparr>mDeviceData := [Some 0, Some 2] @ replicate 126 None, mNumDeviceData := 2\<rparr>"


definition rewrittenAdapter :: Adapter where
  "rewrittenAdapter =
     syncedAdapter\<lparr>heap := (heap syncedAdapter)[0 := setValue (Number 2.5) (heap syncedAdapter ! 0)]\<rparr>"

section \<open>Properties\<close>

subsection \<open>Buffer and framing\<close>

lemma toString_nonempty: "toString e d \<noteq> []"
  by (simp add: toString_def)

lemma body_empty_iff: "body e ts ds = [] \<longleftrightarrow> ds = []"
  by (cases ds) (simp_all add: body_def toString_def)

lemma deviceDatumAt_frame:
  "mDeviceData s' = mDeviceData s \<Longrightarrow> length (heap s') = length (heap s) \<Longrightarrow>
   deviceDatumAt i s' = deviceDatumAt i s"
  by (simp add: deviceDatumAt_def split: option.splits)

lemma deviceDatumAt_Inr:
  "deviceDatumAt i s = Inr p \<Longrightarrow> mDeviceData s ! i = Some p \<and> p < length (heap s) \<and> i < length (mDeviceData s)"
  by (auto simp add: deviceDatumAt_def split: option.splits if_splits)

lemma sendBuffer_empty: "mText (mBuffer s) = [] \<Longrightarrow> sendBuffer s = s"
  by (simp add: sendBuffer_def length_text_def split: option.splits)

lemma sendBuffer_body:
  "mServer s = Some sv \<Longrightarrow> mText (mBuffer s) = body e (mTimestamp (mBuffer s)) acc \<Longrightarrow> acc \<noteq> [] \<Longrightarrow>
   sendBuffer s = s\<lparr>mServer := Some (broadcast sv [line e (mTimestamp (mBuffer s)) acc]),
                    mBuffer := (mBuffer s)\<lparr>mText := []\<rparr>\<rparr>"
  using body_empty_iff[of e "mTimestamp (mBuffer s)" acc]
  by (simp add: sendBuffer_def length_text_def append_text_def reset_def sendToClients_def broadcast_def line_def body_def)

text \<open>Flushing a buffer that holds the pending datums, if any.\<close>

lemma sendBuffer_pending:
  assumes "mServer s = Some sv" "mText (mBuffer s) = body e (mTimestamp (mBuffer s)) acc"
  shows "sendBuffer s = s\<lparr>mServer := Some (broadcast sv (map (line e (mTimestamp (mBuffer s))) (framesFrom acc []))),
                    mBuffer := (mBuffer s)\<lparr>mText := []\<rparr>\<rparr>"
proof (cases "acc = []")
  case True
  with assms have "mText (mBuffer s) = []" by (simp add: body_def)
  then have "sendBuffer s = s" by (rule sendBuffer_empty)
  moreover have "s\<lparr>mServer := Some (broadcast sv []), mBuffer := (mBuffer s)\<lparr>mText := []\<rparr>\<rparr> = s"
    using assms True by (simp add: broadcast_def body_def)
  ultimately show ?thesis using True by simp
next
  case False
  then show ?thesis using sendBuffer_body[OF assms False] by simp
qed

lemma broadcast_broadcast: "broadcast (broadcast sv xs) ys = broadcast sv (xs @ ys)"
  by (simp add: broadcast_def)

lemma serialized_Nil: "serialized [] h = h"
  by (simp add: serialized_def map_nth)

lemma serialized_Cons:
  "p < length h \<Longrightarrow> serialized ps (h[p := (h ! p)\<lparr>mChanged := False\<rparr>]) = serialized (p # ps) h"
  by (rule nth_equalityI) (auto simp add: serialized_def nth_list_update)


lemma sendDatum_own:
  assumes srv: "mServer s = Some sv"
    and buf: "mText (mBuffer s) = body e (mTimestamp (mBuffer s)) acc"
    and p: "p < length (heap s)" and own: "mOwnLine (heap s ! p)"
  shows "sendDatum e p s =
     Ok (s\<lparr>mServer := Some (broadcast sv (map (line e (mTimestamp (mBuffer s)))
                                  ((if acc = [] then [] else [acc]) @ [[heap s ! p]]))),
           mBuffer := (mBuffer s)\<lparr>mText := []\<rparr>,
           heap := (heap s)[p := (heap s ! p)\<lparr>mChanged := False\<rparr>]\<rparr>)"
proof -
  let ?ts = "mTimestamp (mBuffer s)"
  let ?d = "heap s ! p"
  define s1 where "s1 = sendBuffer s"
  have s1: "s1 = s\<lparr>mServer := Some (broadcast sv (map (line e ?ts) (framesFrom acc []))),
                    mBuffer := (mBuffer s)\<lparr>mText := []\<rparr>\<rparr>"
    unfolding s1_def by (rule sendBuffer_pending[OF srv buf])
  define s2 where "s2 = s1\<lparr>mBuffer := append_text (toString e ?d) (mBuffer s1),
                            heap := (heap s1)[p := ?d\<lparr>mChanged := False\<rparr>]\<rparr>"
  have tx2: "mText (mBuffer s2) = body e (mTimestamp (mBuffer s2)) [?d]"
    by (simp add: s2_def s1 append_text_def body_def)
  have srv2: "mServer s2 = Some (broadcast sv (map (line e ?ts) (framesFrom acc [])))"
    by (simp add: s2_def s1)
  have "sendDatum e p s = Ok (sendBuffer s2)"
    using p own by (simp add: sendDatum_def requiresFlush_def append_datum_def s2_def s1_def Let_def)
  also have "sendBuffer s2 = s2\<lparr>mServer := Some (broadcast (broadcast sv (map (line e ?ts) (framesFrom acc []))) [line e (mTimestamp (mBuffer s2)) [?d]]),
                    mBuffer := (mBuffer s2)\<lparr>mText := []\<rparr>\<rparr>"
    by (rule sendBuffer_body[OF srv2 tx2]) simp
  finally show ?thesis
    by (simp add: s2_def s1 broadcast_broadcast append_text_def)
qed

lemma sendDatum_plain:
  assumes buf: "mText (mBuffer s) = body e (mTimestamp (mBuffer s)) acc"
    and p: "p < length (heap s)" and own: "\<not> mOwnLine (heap s ! p)"
  shows "sendDatum e p s =
     Ok (s\<lparr>mBuffer := (mBuffer s)\<lparr>mText := body e (mTimestamp (mBuffer s)) (acc @ [heap s ! p])\<rparr>,
           heap := (heap s)[p := (heap s ! p)\<lparr>mChanged := False\<rparr>]\<rparr>)"
  using p own buf body_empty_iff[of e "mTimestamp (mBuffer s)" acc]
  by (simp add: sendDatum_def requiresFlush_def append_datum_def append_text_def Let_def body_def)


lemma pointersAt_frame: "mDeviceData s' = mDeviceData s \<Longrightarrow> pointersAt ixs s' = pointersAt ixs s"
  by (simp add: pointersAt_def)

lemma soundAt_frame:
  "mDeviceData s' = mDeviceData s \<Longrightarrow> length (heap s') = length (heap s) \<Longrightarrow> soundAt ixs s' = soundAt ixs s"
  by (simp add: soundAt_def pointersAt_def deviceDatumAt_frame[of s' s])

lemma soundAt_Cons:
  "soundAt (i # rest) s \<Longrightarrow>
   deviceDatumAt i s = Inr (the (mDeviceData s ! i)) \<and> the (mDeviceData s ! i) < length (heap s)
   \<and> the (mDeviceData s ! i) \<notin> set (pointersAt rest s) \<and> soundAt rest s"
  by (auto simp add: soundAt_def pointersAt_def split: sum.splits dest!: deviceDatumAt_Inr)

lemma chosen_update: "p \<notin> set ps \<Longrightarrow> chosen test ps (h[p := d]) = chosen test ps h"
  unfolding chosen_def by (rule filter_cong[OF refl]) (metis nth_list_update_neq)

lemma datums_update: "p \<notin> set ps \<Longrightarrow> datums ps (h[p := d]) = datums ps h"
  unfolding datums_def by (rule map_cong[OF refl]) (metis nth_list_update_neq)

lemma chosen_subset: "set (chosen test ps h) \<subseteq> set ps"
  by (auto simp add: chosen_def)

lemma sendEach_then_sendBuffer:
  assumes "mServer s = Some sv"
    and "soundAt ixs s"
    and "mText (mBuffer s) = body e (mTimestamp (mBuffer s)) acc"
  shows "andThen (sendEach e test ixs s) (\<lambda>s'. Ok (sendBuffer s')) =
     Ok (s\<lparr>mServer := Some (broadcast sv (map (line e (mTimestamp (mBuffer s)))
              (framesFrom acc (datums (chosen test (pointersAt ixs s) (heap s)) (heap s))))),
           mBuffer := (mBuffer s)\<lparr>mText := []\<rparr>,
           heap := serialized (chosen test (pointersAt ixs s) (heap s)) (heap s)\<rparr>)"
  using assms
proof (induction ixs arbitrary: s sv acc)
  case Nil
  then show ?case
    by (simp add: andThen_def sendBuffer_pending[of s sv e acc] pointersAt_def chosen_def datums_def serialized_Nil)
next
  case (Cons i rest)
  let ?p = "the (mDeviceData s ! i)"
  let ?d = "heap s ! ?p"
  let ?ts = "mTimestamp (mBuffer s)"
  let ?h1 = "(heap s)[?p := ?d\<lparr>mChanged := False\<rparr>]"
  from soundAt_Cons[OF Cons.prems(2)]
  have at: "deviceDatumAt i s = Inr ?p" and p: "?p < length (heap s)"
    and fresh: "?p \<notin> set (pointersAt rest s)" and rest: "soundAt rest s"
    by simp_all
  have ptrs: "pointersAt (i # rest) s = ?p # pointersAt rest s"
    by (simp add: pointersAt_def)
  show ?case
  proof (cases "test ?d")
    case False
    then have "andThen (sendEach e test (i # rest) s) (\<lambda>s'. Ok (sendBuffer s'))
             = andThen (sendEach e test rest s) (\<lambda>s'. Ok (sendBuffer s'))"
      by (simp add: at andThen_def)
    also note Cons.IH[OF Cons.prems(1) rest Cons.prems(3)]
    finally show ?thesis using False by (simp add: ptrs chosen_def)
  next
    case True
    have ch: "chosen test (pointersAt (i # rest) s) (heap s) = ?p # chosen test (pointersAt rest s) (heap s)"
      using True by (simp add: ptrs chosen_def)
    have fresh': "?p \<notin> set (chosen test (pointersAt rest s) (heap s))"
      using fresh chosen_subset by blast
    show ?thesis
    proof (cases "mOwnLine ?d")
      case own: True
      define s1 where "s1 = s\<lparr>mServer := Some (broadcast sv (map (line e ?ts)
                                  ((if acc = [] then [] else [acc]) @ [[?d]]))),
           mBuffer := (mBuffer s)\<lparr>mText := []\<rparr>, heap := ?h1\<rparr>"
      have step: "sendDatum e ?p s = Ok s1"
        unfolding s1_def by (rule sendDatum_own[OF Cons.prems(1) Cons.prems(3) p own])
      have a1: "mServer s1 = Some (broadcast sv (map (line e ?ts) ((if acc = [] then [] else [acc]) @ [[?d]])))"
        by (simp add: s1_def)
      have a2: "soundAt rest s1"
        using rest soundAt_frame[of s1 s rest] by (simp add: s1_def)
      have a3: "mText (mBuffer s1) = body e (mTimestamp (mBuffer s1)) []"
        by (simp add: s1_def body_def)
      have a4: "pointersAt rest s1 = pointersAt rest s"
        by (rule pointersAt_frame) (simp add: s1_def)
      have a5: "heap s1 = ?h1" by (simp add: s1_def)
      have a6: "mTimestamp (mBuffer s1) = ?ts" by (simp add: s1_def)
      have "andThen (sendEach e test (i # rest) s) (\<lambda>s'. Ok (sendBuffer s'))
             = andThen (sendEach e test rest s1) (\<lambda>s'. Ok (sendBuffer s'))"
        using True by (simp add: at step andThen_def)
      also note Cons.IH[OF a1 a2 a3]
      finally have "andThen (sendEach e test (i # rest) s) (\<lambda>s'. Ok (sendBuffer s')) =
          Ok (s1\<lparr>mServer := Some (broadcast (broadcast sv (map (line e ?ts) ((if acc = [] then [] else [acc]) @ [[?d]])))
                 (map (line e ?ts) (framesFrom [] (datums (chosen test (pointersAt rest s) (heap s)) (heap s))))),
               mBuffer := (mBuffer s1)\<lparr>mText := []\<rparr>,
               heap := serialized (?p # chosen test (pointersAt rest s) (heap s)) (heap s)\<rparr>)"
        using fresh fresh' p a4 a5 a6
        by (simp add: chosen_update datums_update serialized_Cons)
      then show ?thesis
        using own by (simp add: s1_def ch broadcast_broadcast datums_def)
    next
      case plain: False
      define s1 where "s1 = s\<lparr>mBuffer := (mBuffer s)\<lparr>mText := body e ?ts (acc @ [?d])\<rparr>, heap := ?h1\<rparr>"
      have step: "sendDatum e ?p s = Ok s1"
        unfolding s1_def by (rule sendDatum_plain[OF Cons.prems(3) p plain])
      have a1: "mServer s1 = Some sv"
        using Cons.prems(1) by (simp add: s1_def)
      have a2: "soundAt rest s1"
        using rest soundAt_frame[of s1 s rest] by (simp add: s1_def)
      have a3: "mText (mBuffer s1) = body e (mTimestamp (mBuffer s1)) (acc @ [?d])"
        by (simp add: s1_def)
      have a4: "pointersAt rest s1 = pointersAt rest s"
        by (rule pointersAt_frame) (simp add: s1_def)
      have a5: "heap s1 = ?h1" by (simp add: s1_def)
      have a6: "mTimestamp (mBuffer s1) = ?ts" by (simp add: s1_def)
      have "andThen (sendEach e test (i # rest) s) (\<lambda>s'. Ok (sendBuffer s'))
             = andThen (sendEach e test rest s1) (\<lambda>s'. Ok (sendBuffer s'))"
        using True by (simp add: at step andThen_def)
      also note Cons.IH[OF a1 a2 a3]
      finally have "andThen (sendEach e test (i # rest) s) (\<lambda>s'. Ok (sendBuffer s')) =
          Ok (s1\<lparr>mServer := Some (broadcast sv
                 (map (line e ?ts) (framesFrom (acc @ [?d]) (datums (chosen test (pointersAt rest s) (heap s)) (heap s))))),
               mBuffer := (mBuffer s1)\<lparr>mText := []\<rparr>,
               heap := serialized (?p # chosen test (pointersAt rest s) (heap s)) (heap s)\<rparr>)"
        using fresh fresh' p a4 a5 a6
        by (simp add: chosen_update datums_update serialized_Cons)
      then show ?thesis
        using plain by (simp add: s1_def ch datums_def)
    qed
  qed
qed

lemma framesFrom_concat: "concat (framesFrom acc ds) = acc @ ds"
  by (induction acc ds rule: framesFrom.induct) auto

lemma framesFrom_nonempty: "[] \<notin> set (framesFrom acc ds)"
  by (induction acc ds rule: framesFrom.induct) auto

lemma framesFrom_own_alone:
  "\<forall>d\<in>set acc. \<not> mOwnLine d \<Longrightarrow> g \<in> set (framesFrom acc ds) \<Longrightarrow> d \<in> set g \<Longrightarrow> mOwnLine d \<Longrightarrow> g = [d]"
  by (induction acc ds rule: framesFrom.induct) (auto split: if_splits)

lemma framesFrom_plain:
  "\<forall>d\<in>set ds. \<not> mOwnLine d \<Longrightarrow> framesFrom acc ds = (if acc @ ds = [] then [] else [acc @ ds])"
  by (induction acc ds rule: framesFrom.induct) auto

lemma sendChangedData_sound:
  assumes "sound s" and "mServer s = Some sv" and "mText (mBuffer s) = []"
  shows "sendChangedData e s =
     Ok (s\<lparr>mServer := Some (broadcast sv (map (line e (mTimestamp (mBuffer s))) (frames (changedData s)))),
           heap := serialized (changedPointers s) (heap s)\<rparr>)"
proof -
  have b: "mText (mBuffer s) = body e (mTimestamp (mBuffer s)) []"
    using assms(3) by (simp add: body_def)
  have "(mBuffer s)\<lparr>mText := []\<rparr> = mBuffer s"
    using assms(3) by simp
  then show ?thesis
    using sendEach_then_sendBuffer[OF assms(2) assms(1)[unfolded sound_def] b, of changed]
    by (simp add: sendChangedData_def frames_def changedData_def changedPointers_def registry_def)
qed


lemma registry_frame:
  "mDeviceData s' = mDeviceData s \<Longrightarrow> mNumDeviceData s' = mNumDeviceData s \<Longrightarrow> registry s' = registry s"
  by (simp add: registry_def pointersAt_def)

lemma sound_frame:
  "mDeviceData s' = mDeviceData s \<Longrightarrow> mNumDeviceData s' = mNumDeviceData s \<Longrightarrow>
   length (heap s') = length (heap s) \<Longrightarrow> sound s' = sound s"
  by (simp add: sound_def soundAt_frame[of s' s])

lemma length_serialized: "length (serialized ps h) = length h"
  by (simp add: serialized_def)

lemma length_forced: "length (forced ps h) = length h"
  by (simp add: forced_def)

lemma sendInitialData_sound:
  assumes "sound s" and "mServer s = Some sv" and "mText (mBuffer s) = []"
  shows "sendInitialData e c s =
     Ok (s\<lparr>mServer := Some (broadcast sv (map (line e (now e (ticks s))) (frames (initialData s)))),
           mBuffer := (mBuffer s)\<lparr>mTimestamp := now e (ticks s)\<rparr>,
           mDisableFlush := False,
           heap := serialized (initialPointers s) (heap s),
           ticks := ticks s + 1\<rparr>)"
proof -
  define s1 where "s1 = stampBuffer e (s\<lparr>mDisableFlush := True\<rparr>)"
  have f: "mDeviceData s1 = mDeviceData s" "mNumDeviceData s1 = mNumDeviceData s" "heap s1 = heap s"
    "mServer s1 = Some sv" "mTimestamp (mBuffer s1) = now e (ticks s)" "mText (mBuffer s1) = []"
    using assms(2,3) by (simp_all add: s1_def stampBuffer_def timestamp_def)
  have snd1: "soundAt [0..<mNumDeviceData s1] s1"
    using assms(1) sound_frame[of s1 s] f by (simp add: sound_def)
  have b: "mText (mBuffer s1) = body e (mTimestamp (mBuffer s1)) []"
    using f by (simp add: body_def)
  have p1: "pointersAt [0..<mNumDeviceData s1] s1 = registry s"
    using f by (simp add: registry_def pointersAt_def)
  have "sendInitialData e c s =
      andThen (andThen (sendEach e hasInitialValue [0..<mNumDeviceData s1] s1) (\<lambda>s'. Ok (sendBuffer s')))
        (\<lambda>s2. Ok (s2\<lparr>mDisableFlush := False\<rparr>))"
    by (simp add: sendInitialData_def s1_def Let_def andThen_def split: outcome.splits)
  also note sendEach_then_sendBuffer[OF f(4) snd1 b, of hasInitialValue]
  finally show ?thesis
    using f(5) assms(3)
    by (simp add: p1 f(3) andThen_def frames_def initialData_def initialPointers_def,
        simp add: s1_def stampBuffer_def timestamp_def)
qed

lemma Finish_sound:
  assumes "sound s" and "mServer s = Some sv" and "mText (mBuffer s) = []"
  shows "Finish e s =
     (if 0 < numClients sv then
        Ok (s\<lparr>mServer := Some (broadcast sv (map (line e (mTimestamp (mBuffer s))) (frames (changedData s)))),
              heap := serialized (changedPointers s) (heap s)\<rparr>)
      else Ok s)"
proof -
  have "(mBuffer s)\<lparr>mText := []\<rparr> = mBuffer s"
    using assms(3) by simp
  then show ?thesis
    using assms(2) by (simp add: Finish_def sendChangedData_sound[OF assms] andThen_def reset_def)
qed

lemma flush_sound:
  assumes "sound s" and "mServer s = Some sv" and "mText (mBuffer s) = []" and "\<not> mDisableFlush s"
  shows "flush e s =
     Ok (s\<lparr>mServer := Some (broadcast sv (map (line e (mTimestamp (mBuffer s))) (frames (changedData s)))),
           mBuffer := (mBuffer s)\<lparr>mTimestamp := now e (ticks s)\<rparr>,
           heap := serialized (changedPointers s) (heap s),
           ticks := ticks s + 1\<rparr>)"
  using assms(3,4)
  by (simp add: flush_def sendChangedData_sound[OF assms(1-3)] andThen_def reset_def stampBuffer_def timestamp_def)

lemma datum_unavailable_idem: "datum_unavailable (datum_unavailable d) = datum_unavailable d"
  by (simp add: datum_unavailable_def setValue_def)

lemma forced_Nil: "forced [] h = h"
  by (simp add: forced_def map_nth)

lemma forced_Cons:
  "p < length h \<Longrightarrow> forced ps (h[p := datum_unavailable (h ! p)]) = forced (p # ps) h"
  by (rule nth_equalityI) (auto simp add: forced_def nth_list_update datum_unavailable_idem)

lemma unavailableEach_sound:
  "soundAt ixs s \<Longrightarrow> unavailableEach ixs s = Ok (s\<lparr>heap := forced (pointersAt ixs s) (heap s)\<rparr>)"
proof (induction ixs arbitrary: s)
  case Nil
  then show ?case by (simp add: pointersAt_def forced_Nil)
next
  case (Cons i rest)
  let ?p = "the (mDeviceData s ! i)"
  let ?s1 = "s\<lparr>heap := (heap s)[?p := datum_unavailable (heap s ! ?p)]\<rparr>"
  from soundAt_Cons[OF Cons.prems]
  have at: "deviceDatumAt i s = Inr ?p" and p: "?p < length (heap s)" and rest: "soundAt rest s"
    by simp_all
  have "soundAt rest ?s1"
    using rest soundAt_frame[of ?s1 s rest] by simp
  from Cons.IH[OF this] show ?case
    using p by (simp add: at pointersAt_frame[of ?s1 s] forced_Cons, simp add: pointersAt_def)
qed

lemma forced_nth: "p \<in> set ps \<Longrightarrow> p < length h \<Longrightarrow> forced ps h ! p = datum_unavailable (h ! p)"
  by (simp add: forced_def)

lemma serialized_nth:
  "p < length h \<Longrightarrow> serialized ps h ! p = (if p \<in> set ps then (h ! p)\<lparr>mChanged := False\<rparr> else h ! p)"
  by (simp add: serialized_def)

lemma soundAt_member:
  "soundAt ixs s \<Longrightarrow> i \<in> set ixs \<Longrightarrow>
   deviceDatumAt i s = Inr (the (mDeviceData s ! i)) \<and> the (mDeviceData s ! i) < length (heap s)"
proof (induction ixs)
  case Nil
  then show ?case by simp
next
  case (Cons j rest)
  from soundAt_Cons[OF Cons.prems(1)] Cons.IH Cons.prems(2) show ?case by auto
qed

lemma sound_registry_bound: "sound s \<Longrightarrow> p \<in> set (registry s) \<Longrightarrow> p < length (heap s)"
  using soundAt_member[of "[0..<mNumDeviceData s]" s]
  by (auto simp add: sound_def registry_def pointersAt_def)

lemma chosen_all: "\<forall>p\<in>set ps. test (h ! p) \<Longrightarrow> chosen test ps h = ps"
  by (simp add: chosen_def)

lemma unavailable_sound:
  assumes "sound s" and "mServer s = Some sv" and "mText (mBuffer s) = []" and "\<not> mDisableFlush s"
  shows "unavailable e s =
     Ok (s\<lparr>mServer := Some (broadcast sv (map (line e (mTimestamp (mBuffer s)))
              (frames (map datum_unavailable (datums (registry s) (heap s)))))),
           mBuffer := (mBuffer s)\<lparr>mTimestamp := now e (ticks s)\<rparr>,
           heap := serialized (registry s) (forced (registry s) (heap s)),
           ticks := ticks s + 1\<rparr>)"
proof -
  define s1 where "s1 = s\<lparr>heap := forced (registry s) (heap s)\<rparr>"
  have step: "unavailableEach [0..<mNumDeviceData s] s = Ok s1"
    using unavailableEach_sound[OF assms(1)[unfolded sound_def]] by (simp add: s1_def registry_def)
  have f: "mServer s1 = Some sv" "mText (mBuffer s1) = []" "\<not> mDisableFlush s1"
    "mBuffer s1 = mBuffer s" "ticks s1 = ticks s" "heap s1 = forced (registry s) (heap s)"
    using assms(2-4) by (simp_all add: s1_def)
  have reg: "registry s1 = registry s"
    by (rule registry_frame) (simp_all add: s1_def)
  have snd1: "sound s1"
    using assms(1) sound_frame[of s1 s] by (simp add: s1_def length_forced)
  have all: "\<forall>p\<in>set (registry s). changed (forced (registry s) (heap s) ! p)"
    using sound_registry_bound[OF assms(1)]
    by (simp add: forced_nth changed_def datum_unavailable_def setValue_def)
  have cp: "changedPointers s1 = registry s"
    using all by (simp add: changedPointers_def reg f(6) chosen_all)
  have cd: "changedData s1 = map datum_unavailable (datums (registry s) (heap s))"
    using sound_registry_bound[OF assms(1)]
    by (simp add: changedData_def cp f(6) datums_def forced_nth)
  show ?thesis
    by (simp add: unavailable_def step andThen_def flush_sound[OF snd1 f(1-3)] cp cd f(4-6), simp add: s1_def)
qed

lemma andThen_Ok: "andThen (Ok s) f = f s"
  by (simp add: andThen_def)

lemma andThen_return: "andThen r Ok = r"
  by (simp add: andThen_def split: outcome.splits)

lemma clients_broadcast: "clients (broadcast sv ms) = clients sv"
  by (simp add: broadcast_def)

lemma outbox_broadcast: "outbox (broadcast sv ms) = outbox sv @ map (\<lambda>m. (clients sv, m)) ms"
  by (simp add: broadcast_def)

lemma received_broadcast:
  "received c (broadcast sv ms) = received c sv @ (if c \<in> set (clients sv) then ms else [])"
  by (simp add: received_def broadcast_def comp_def)

lemma received_readFromClients: "received c (readFromClients gone sv) = received c sv"
  by (simp add: received_def readFromClients_def)

lemma sendInitialData_idle:
  assumes "idle s" and "mServer s = Some sv"
  shows "\<exists>s'. sendInitialData e c s = Ok s' \<and> idle s'
            \<and> mServer s' = Some (broadcast sv (map (line e (now e (ticks s))) (frames (initialData s))))
            \<and> disconnects s' = disconnects s \<and> ticks s' = ticks s + 1"
proof -
  from assms(1) have s: "sound s" and t: "mText (mBuffer s) = []"
    by (simp_all add: idle_def)
  let ?s' = "s\<lparr>mServer := Some (broadcast sv (map (line e (now e (ticks s))) (frames (initialData s)))),
           mBuffer := (mBuffer s)\<lparr>mTimestamp := now e (ticks s)\<rparr>,
           mDisableFlush := False,
           heap := serialized (initialPointers s) (heap s),
           ticks := ticks s + 1\<rparr>"
  have "sound ?s'"
    using s sound_frame[of ?s' s] by (simp add: length_serialized)
  then have "idle ?s'"
    using t by (simp add: idle_def)
  then show ?thesis
    using sendInitialData_sound[OF s assms(2) t, of e c] by simp
qed

lemma syncEach_idle:
  assumes "idle s" and "mServer s = Some sv"
  shows "\<exists>s' sv'. syncEach e cs s = Ok s' \<and> idle s' \<and> mServer s' = Some sv'
            \<and> clients sv' = clients sv \<and> disconnects s' = disconnects s"
  using assms
proof (induction cs arbitrary: s sv)
  case Nil
  then show ?case by simp
next
  case (Cons c cs)
  from sendInitialData_idle[OF Cons.prems, of e c]
  obtain s1 where s1: "sendInitialData e c s = Ok s1" "idle s1"
    "mServer s1 = Some (broadcast sv (map (line e (now e (ticks s))) (frames (initialData s))))"
    "disconnects s1 = disconnects s"
    by blast
  from Cons.IH[OF s1(2) s1(3)] show ?case
    using s1(1,4) by (simp add: andThen_Ok clients_broadcast)
qed

lemma idle_frame:
  "mDeviceData s' = mDeviceData s \<Longrightarrow> mNumDeviceData s' = mNumDeviceData s \<Longrightarrow>
   length (heap s') = length (heap s) \<Longrightarrow> mText (mBuffer s') = mText (mBuffer s) \<Longrightarrow>
   mDisableFlush s' = mDisableFlush s \<Longrightarrow> idle s' = idle s"
  by (simp add: idle_def sound_frame[of s' s])

lemma Start_idle:
  assumes "idle s"
  shows "\<exists>s' sv'. Start e accepted gone s = Ok s' \<and> idle s' \<and> mServer s' = Some sv'
     \<and> clients sv' = filter (\<lambda>c. c \<notin> set gone) (clients (serverOf s) @ accepted)
     \<and> (0 < numClients sv' \<longrightarrow> mTimestamp (mBuffer s') = now e (ticks s' - 1))"
proof -
  let ?sv1 = "(serverOf s)\<lparr>clients := clients (serverOf s) @ accepted\<rparr>"
  let ?s0 = "s\<lparr>mServer := Some ?sv1\<rparr>"
  have i0: "idle ?s0"
    using assms idle_frame[of ?s0 s] by simp
  from syncEach_idle[OF i0, of ?sv1 e accepted]
  obtain s1 sv2 where s1: "syncEach e accepted ?s0 = Ok s1" "idle s1" "mServer s1 = Some sv2"
    "clients sv2 = clients ?sv1"
    by auto
  let ?s2 = "s1\<lparr>mServer := Some (readFromClients gone sv2)\<rparr>"
  have i2: "idle ?s2"
    using s1(2) idle_frame[of ?s2 s1] by simp
  have i3: "idle (stampBuffer e ?s2)"
    using i2 idle_frame[of "stampBuffer e ?s2" ?s2] by (simp add: stampBuffer_def timestamp_def)
  have i4: "idle (clientsDisconnected ?s2)"
    using i2 idle_frame[of "clientsDisconnected ?s2" ?s2] by (simp add: clientsDisconnected_def)
  have "Start e accepted gone s =
     (if 0 < numClients (readFromClients gone sv2) then Ok (stampBuffer e ?s2)
      else if accepted \<noteq> [] then Ok (clientsDisconnected ?s2) else Ok ?s2)"
    using s1(1,3)
    by (simp add: Start_def connectToClients_def serverOf_def Let_def andThen_Ok)
  then show ?thesis
    using i2 i3 i4 s1(4)
    by (auto simp add: stampBuffer_def clientsDisconnected_def readFromClients_def
        timestamp_def numClients_def)
qed

lemma Finish_idle:
  assumes "idle s" and "mServer s = Some sv"
  shows "\<exists>s'. Finish e s = Ok s' \<and> idle s'"
proof -
  from assms(1) have s: "sound s" and t: "mText (mBuffer s) = []"
    by (simp_all add: idle_def)
  let ?s' = "s\<lparr>mServer := Some (broadcast sv (map (line e (mTimestamp (mBuffer s))) (frames (changedData s)))),
              heap := serialized (changedPointers s) (heap s)\<rparr>"
  have "idle ?s'"
    using assms(1) idle_frame[of ?s' s] by (simp add: length_serialized)
  then show ?thesis
    using assms(1) by (simp add: Finish_sound[OF s assms(2) t])
qed

lemma unavailable_idle:
  assumes "idle s" and "mServer s = Some sv"
  shows "\<exists>s'. unavailable e s = Ok s' \<and> idle s'"
proof -
  from assms(1) have s: "sound s" and t: "mText (mBuffer s) = []" and d: "\<not> mDisableFlush s"
    by (simp_all add: idle_def)
  let ?s' = "s\<lparr>mServer := Some (broadcast sv (map (line e (mTimestamp (mBuffer s)))
              (frames (map datum_unavailable (datums (registry s) (heap s)))))),
           mBuffer := (mBuffer s)\<lparr>mTimestamp := now e (ticks s)\<rparr>,
           heap := serialized (registry s) (forced (registry s) (heap s)),
           ticks := ticks s + 1\<rparr>"
  have "idle ?s'"
    using assms(1) idle_frame[of ?s' s] by (simp add: length_serialized length_forced)
  then show ?thesis
    by (simp add: unavailable_sound[OF s assms(2) t d])
qed

lemma idle_newAdapter: "idle newAdapter"
  by (simp add: idle_def sound_def soundAt_def pointersAt_def newAdapter_def newStringBuffer_def)

subsection \<open>Registration\<close>









subsection \<open>The diff send\<close>

text \<open>
  C2. Between \<^verbatim>\<open>Start\<close> and \<^verbatim>\<open>Finish\<close> the producer only writes datums, so
  \<^verbatim>\<open>Finish\<close> finds the adapter idle with whatever dirty flags the writes left.
  With a client connected it returns, and the lines it broadcasts are the frames
  of exactly the registered datums whose dirty flag is set, taken in registration
  order: every one of them is in one frame, nothing else is, and all of them are
  clean afterwards. With no client connected it changes nothing, the dirty flags
  included.
\<close>

theorem Finish_sends_exactly_the_dirty:
  assumes "idle s" and "mServer s = Some sv"
  shows "(0 < numClients sv \<longrightarrow>
           (\<exists>s'. Finish e s = Ok s'
              \<and> mServer s' = Some (broadcast sv (map (line e (mTimestamp (mBuffer s))) (frames (changedData s))))
              \<and> concat (frames (changedData s)) = changedData s
              \<and> changedData s = map (\<lambda>p. heap s ! p) (filter (\<lambda>p. mChanged (heap s ! p)) (registry s))
              \<and> heap s' = serialized (changedPointers s) (heap s)
              \<and> changedData s' = []))
       \<and> (numClients sv = 0 \<longrightarrow> Finish e s = Ok s)"
proof -
  from assms(1) have s: "sound s" and t: "mText (mBuffer s) = []"
    by (simp_all add: idle_def)
  define s' where "s' = s\<lparr>mServer := Some (broadcast sv (map (line e (mTimestamp (mBuffer s))) (frames (changedData s)))),
              heap := serialized (changedPointers s) (heap s)\<rparr>"
  have reg: "registry s' = registry s"
    by (rule registry_frame) (simp_all add: s'_def)
  have h: "heap s' = serialized (changedPointers s) (heap s)"
    by (simp add: s'_def)
  have "chosen changed (registry s) (serialized (changedPointers s) (heap s)) = []"
    using sound_registry_bound[OF s]
    by (auto simp add: chosen_def filter_empty_conv serialized_nth changed_def changedPointers_def)
  then have clean: "changedData s' = []"
    by (simp add: changedData_def changedPointers_def reg h datums_def)
  have fin: "Finish e s = (if 0 < numClients sv then Ok s' else Ok s)"
    unfolding s'_def by (rule Finish_sound[OF s assms(2) t])
  have srv: "mServer s' = Some (broadcast sv (map (line e (mTimestamp (mBuffer s))) (frames (changedData s))))"
    by (simp add: s'_def)
  have cd: "changedData s = map (\<lambda>p. heap s ! p) (filter (\<lambda>p. mChanged (heap s ! p)) (registry s))"
    by (simp add: changedData_def changedPointers_def datums_def chosen_def changed_def)
  show ?thesis
    using clean srv h cd by (simp add: fin frames_def framesFrom_concat)
qed

theorem Finish_sends_exactly_the_dirty_witness:
  "idle sampleAdapter \<and> mServer sampleAdapter = Some sampleServer \<and> 0 < numClients sampleServer
   \<and> (\<exists>s'. Finish sampleEnv sampleAdapter = Ok s'
         \<and> mServer s' = Some (sampleServer\<lparr>outbox :=
               [([1], ''T0|Xact|1.5'' @ [CHR 0x0A]), ([1], ''T0|alarm|HIGH'' @ [CHR 0x0A])]\<rparr>))
   \<and> idle (sampleAdapter\<lparr>mServer := Some (sampleServer\<lparr>clients := []\<rparr>)\<rparr>)
   \<and> numClients (sampleServer\<lparr>clients := []\<rparr>) = 0
   \<and> Finish sampleEnv (sampleAdapter\<lparr>mServer := Some (sampleServer\<lparr>clients := []\<rparr>)\<rparr>)
       = Ok (sampleAdapter\<lparr>mServer := Some (sampleServer\<lparr>clients := []\<rparr>)\<rparr>)"
proof -
  have a: "idle sampleAdapter" by code_simp
  have b: "mServer sampleAdapter = Some sampleServer" by (simp add: sampleAdapter_def)
  have c: "0 < numClients sampleServer" by (simp add: sampleServer_def numClients_def)
  have d: "idle (sampleAdapter\<lparr>mServer := Some (sampleServer\<lparr>clients := []\<rparr>)\<rparr>)"
    using a idle_frame[of "sampleAdapter\<lparr>mServer := Some (sampleServer\<lparr>clients := []\<rparr>)\<rparr>" sampleAdapter]
    by simp
  have l: "map (line sampleEnv (mTimestamp (mBuffer sampleAdapter))) (frames (changedData sampleAdapter))
      = [''T0|Xact|1.5'' @ [CHR 0x0A], ''T0|alarm|HIGH'' @ [CHR 0x0A]]"
    by code_simp
  show ?thesis
    using Finish_sends_exactly_the_dirty[OF a b, of sampleEnv]
      Finish_sends_exactly_the_dirty[OF d, of "sampleServer\<lparr>clients := []\<rparr>" sampleEnv]
      a b c d
    by (auto simp add: l broadcast_def numClients_def sampleServer_def)
qed

subsection \<open>Finishing twice\<close>

lemma broadcast_Nil: "broadcast sv [] = sv"
  by (simp add: broadcast_def)

lemma Finish_clean:
  assumes "idle s" and "mServer s = Some sv" and "changedData s = []"
  shows "Finish e s = Ok s"
proof -
  from assms(1) have s: "sound s" and t: "mText (mBuffer s) = []"
    by (simp_all add: idle_def)
  from assms(3) have "changedPointers s = []"
    by (simp add: changedData_def datums_def)
  then have "s\<lparr>mServer := Some (broadcast sv (map (line e (mTimestamp (mBuffer s))) (frames (changedData s)))),
              heap := serialized (changedPointers s) (heap s)\<rparr> = s"
    using assms(2,3) by (simp add: frames_def broadcast_Nil serialized_Nil)
  then show ?thesis
    by (simp add: Finish_sound[OF s assms(2) t])
qed

lemma Finish_connected:
  assumes "idle s" and "mServer s = Some sv" and "0 < numClients sv"
  shows "\<exists>s'. Finish e s = Ok s' \<and> idle s' \<and> changedData s' = []
     \<and> mServer s' = Some (broadcast sv (map (line e (mTimestamp (mBuffer s))) (frames (changedData s))))"
proof -
  from assms(1) have s: "sound s" and t: "mText (mBuffer s) = []"
    by (simp_all add: idle_def)
  define s' where "s' = s\<lparr>mServer := Some (broadcast sv (map (line e (mTimestamp (mBuffer s))) (frames (changedData s)))),
              heap := serialized (changedPointers s) (heap s)\<rparr>"
  have reg: "registry s' = registry s"
    by (rule registry_frame) (simp_all add: s'_def)
  have h: "heap s' = serialized (changedPointers s) (heap s)"
    by (simp add: s'_def)
  have "chosen changed (registry s) (serialized (changedPointers s) (heap s)) = []"
    using sound_registry_bound[OF s]
    by (auto simp add: chosen_def filter_empty_conv serialized_nth changed_def changedPointers_def)
  then have clean: "changedData s' = []"
    by (simp add: changedData_def changedPointers_def reg h datums_def)
  have i: "idle s'"
    using assms(1) idle_frame[of s' s] by (simp add: s'_def length_serialized)
  have "Finish e s = Ok s'"
    using assms(3) unfolding s'_def by (simp add: Finish_sound[OF s assms(2) t])
  then show ?thesis
    using clean i by (simp add: s'_def)
qed

text \<open>
  C9. \<^verbatim>\<open>Finish\<close> called twice in a row with a client connected, no write and no
  \<^verbatim>\<open>Start\<close> in between: the first call broadcasts the lines of the datums that
  changed and leaves every registered datum clean; the second call returns the
  adapter exactly as it found it, so it flushes nothing and transmits nothing.
\<close>

theorem Finish_twice:
  assumes "idle s" and "mServer s = Some sv" and "0 < numClients sv"
  shows "\<exists>s1. Finish e s = Ok s1
     \<and> mServer s1 = Some (broadcast sv (map (line e (mTimestamp (mBuffer s))) (frames (changedData s))))
     \<and> Finish e s1 = Ok s1"
proof -
  from Finish_connected[OF assms, of e]
  obtain s1 where s1: "Finish e s = Ok s1" "idle s1" "changedData s1 = []"
    "mServer s1 = Some (broadcast sv (map (line e (mTimestamp (mBuffer s))) (frames (changedData s))))"
    by blast
  from Finish_clean[OF s1(2) s1(4) s1(3), of e] s1(1,4) show ?thesis
    by simp
qed

theorem Finish_twice_witness:
  "idle sampleAdapter \<and> mServer sampleAdapter = Some sampleServer \<and> 0 < numClients sampleServer
   \<and> (\<exists>s1. Finish sampleEnv sampleAdapter = Ok s1
         \<and> mServer s1 = Some (sampleServer\<lparr>outbox :=
               [([1], ''T0|Xact|1.5'' @ [CHR 0x0A]), ([1], ''T0|alarm|HIGH'' @ [CHR 0x0A])]\<rparr>)
         \<and> Finish sampleEnv s1 = Ok s1)"
proof -
  have a: "idle sampleAdapter" by code_simp
  have b: "mServer sampleAdapter = Some sampleServer" by (simp add: sampleAdapter_def)
  have c: "0 < numClients sampleServer" by (simp add: sampleServer_def numClients_def)
  have l: "map (line sampleEnv (mTimestamp (mBuffer sampleAdapter))) (frames (changedData sampleAdapter))
      = [''T0|Xact|1.5'' @ [CHR 0x0A], ''T0|alarm|HIGH'' @ [CHR 0x0A]]"
    by code_simp
  show ?thesis
    using Finish_twice[OF a b c, of sampleEnv] a b c
    by (auto simp add: l broadcast_def sampleServer_def)
qed

subsection \<open>A cycle in which nothing changed\<close>

text \<open>
  C10. The claim that a cycle with a client connected at \<^verbatim>\<open>Start\<close> and no dirty
  datum at \<^verbatim>\<open>Finish\<close> still transmits a line made of the timestamp and the
  terminator fails: a new adapter that accepts a client in \<^verbatim>\<open>Start\<close> and
  then runs \<^verbatim>\<open>Finish\<close> has broadcast nothing.
\<close>

theorem quiet_cycle_counterexample:
  "andThen (Start sampleEnv [1] [] newAdapter) (Finish sampleEnv) = Ok startedAdapter
   \<and> mServer startedAdapter = Some \<lparr>sPort = 7878, sHeartbeat = 10000, clients = [1], outbox = []\<rparr>"
  by code_simp

text \<open>
  C10, as amended. In a cycle with no dirty datum at \<^verbatim>\<open>Finish\<close> the adapter
  transmits nothing: \<^verbatim>\<open>Start\<close> only records the clock reading as the stamp of
  the buffer (when a client is connected), the text of the buffer stays empty,
  and \<^verbatim>\<open>Finish\<close> returns the adapter as it found it.
\<close>

theorem quiet_cycle_sends_nothing:
  assumes "idle s" and "Start e accepted gone s = Ok s1" and "changedData s1 = []"
  shows "\<exists>sv1. mServer s1 = Some sv1 \<and> Finish e s1 = Ok s1 \<and> mText (mBuffer s1) = []
           \<and> (0 < numClients sv1 \<longrightarrow> mTimestamp (mBuffer s1) = now e (ticks s1 - 1))"
proof -
  from Start_idle[OF assms(1), of e accepted gone] assms(2)
  obtain sv1 where s1: "idle s1" "mServer s1 = Some sv1"
    "0 < numClients sv1 \<longrightarrow> mTimestamp (mBuffer s1) = now e (ticks s1 - 1)"
    by auto
  then show ?thesis
    using Finish_clean[of s1 sv1 e] assms(3) by (simp add: idle_def)
qed

theorem quiet_cycle_sends_nothing_witness:
  "idle newAdapter \<and> Start sampleEnv [1] [] newAdapter = Ok startedAdapter
   \<and> changedData startedAdapter = []
   \<and> mServer startedAdapter = Some sampleServer \<and> 0 < numClients sampleServer
   \<and> Finish sampleEnv startedAdapter = Ok startedAdapter
   \<and> mText (mBuffer startedAdapter) = [] \<and> mTimestamp (mBuffer startedAdapter) = ''T1''"
proof -
  have a: "idle newAdapter" by (rule idle_newAdapter)
  have b: "Start sampleEnv [1] [] newAdapter = Ok startedAdapter" by code_simp
  have c: "changedData startedAdapter = []" by code_simp
  have d: "mServer startedAdapter = Some sampleServer" by (simp add: startedAdapter_def)
  have f: "0 < numClients sampleServer" by (simp add: sampleServer_def numClients_def)
  have g: "mTimestamp (mBuffer startedAdapter) = ''T1''" by (simp add: startedAdapter_def)
  from quiet_cycle_sends_nothing[OF a b c] a b c d f g show ?thesis by simp
qed

subsection \<open>The hook for the last client leaving\<close>

text \<open>
  When \<^verbatim>\<open>Start\<close> runs the \<^verbatim>\<open>clientsDisconnected\<close> hook: only if no client is
  left after reading and this very call accepted one, since \<open>hasClients\<close> is a
  local variable that starts false in every call.
\<close>

lemma Start_hook:
  assumes "idle s" and "Start e accepted gone s = Ok s'"
  shows "disconnects s' =
     (if filter (\<lambda>c. c \<notin> set gone) (clients (serverOf s) @ accepted) = [] \<and> accepted \<noteq> []
      then disconnects s + 1 else disconnects s)"
proof -
  let ?sv1 = "(serverOf s)\<lparr>clients := clients (serverOf s) @ accepted\<rparr>"
  let ?s0 = "s\<lparr>mServer := Some ?sv1\<rparr>"
  have i0: "idle ?s0"
    using assms(1) idle_frame[of ?s0 s] by simp
  from syncEach_idle[OF i0, of ?sv1 e accepted]
  obtain s1 sv2 where s1: "syncEach e accepted ?s0 = Ok s1" "mServer s1 = Some sv2"
    "clients sv2 = clients ?sv1" "disconnects s1 = disconnects s"
    by auto
  let ?s2 = "s1\<lparr>mServer := Some (readFromClients gone sv2)\<rparr>"
  have "Start e accepted gone s =
     (if 0 < numClients (readFromClients gone sv2) then Ok (stampBuffer e ?s2)
      else if accepted \<noteq> [] then Ok (clientsDisconnected ?s2) else Ok ?s2)"
    using s1(1,2)
    by (simp add: Start_def connectToClients_def serverOf_def Let_def andThen_Ok)
  with assms(2) show ?thesis
    using s1(3,4)
    by (auto simp add: stampBuffer_def clientsDisconnected_def readFromClients_def numClients_def
        split: if_splits)
qed

text \<open>
  C5. The claim asks for the hook whenever the number of connected clients goes
  from above zero to zero during \<^verbatim>\<open>Start\<close>. The code misses it when the clients
  were accepted in an earlier call: here the only client, connected since an
  earlier cycle, is found gone while reading; the count goes from 1 to 0 and the
  hook has not run.
\<close>

theorem Start_misses_disconnect:
  "numClients sampleServer = 1
   \<and> Start sampleEnv [] [1] sampleAdapter =
       Ok (sampleAdapter\<lparr>mServer := Some (sampleServer\<lparr>clients := []\<rparr>)\<rparr>)
   \<and> disconnects (sampleAdapter\<lparr>mServer := Some (sampleServer\<lparr>clients := []\<rparr>)\<rparr>)
       = disconnects sampleAdapter"
  by code_simp

subsection \<open>Datums that require their own line\<close>

lemma frames_own_alone: "g \<in> set (frames ds) \<Longrightarrow> d \<in> set g \<Longrightarrow> requiresFlush d \<Longrightarrow> g = [d]"
  using framesFrom_own_alone[of "[]" g ds d] by (simp add: frames_def requiresFlush_def)

text \<open>
  C3. Sending a datum whose \<^verbatim>\<open>requiresFlush\<close> is true first flushes the text
  already in the buffer as a line of its own, then puts the datum's text (led
  by the stamp) into the empty buffer and flushes again at once, leaving the
  buffer empty for whatever follows. The full sync and the diff send both go
  through \<^verbatim>\<open>sendDatum\<close>: the lines they broadcast are the frames of the datums
  they send, and in the frames of any list of datums one that requires its own
  line is the only datum of its frame.
\<close>

theorem own_line_datum_alone:
  assumes "mServer s = Some sv"
  shows "(p < length (heap s) \<and> requiresFlush (heap s ! p) \<longrightarrow>
            sendDatum e p s =
              Ok (s\<lparr>mServer := Some (broadcast sv
                       ((if mText (mBuffer s) = [] then [] else [mText (mBuffer s) @ [CHR 0x0A]])
                        @ [mTimestamp (mBuffer s) @ toString e (heap s ! p) @ [CHR 0x0A]])),
                    mBuffer := (mBuffer s)\<lparr>mText := []\<rparr>,
                    heap := (heap s)[p := (heap s ! p)\<lparr>mChanged := False\<rparr>]\<rparr>))
     \<and> (idle s \<longrightarrow>
            (\<exists>s1. sendInitialData e c s = Ok s1
               \<and> mServer s1 = Some (broadcast sv (map (line e (now e (ticks s))) (frames (initialData s)))))
          \<and> (\<exists>s2. sendChangedData e s = Ok s2
               \<and> mServer s2 = Some (broadcast sv (map (line e (mTimestamp (mBuffer s))) (frames (changedData s))))))
     \<and> (\<forall>ds. \<forall>g\<in>set (frames ds). \<forall>d\<in>set g. requiresFlush d \<longrightarrow> g = [d])"
proof (intro conjI impI)
  assume a: "p < length (heap s) \<and> requiresFlush (heap s ! p)"
  show "sendDatum e p s =
              Ok (s\<lparr>mServer := Some (broadcast sv
                       ((if mText (mBuffer s) = [] then [] else [mText (mBuffer s) @ [CHR 0x0A]])
                        @ [mTimestamp (mBuffer s) @ toString e (heap s ! p) @ [CHR 0x0A]])),
                    mBuffer := (mBuffer s)\<lparr>mText := []\<rparr>,
                    heap := (heap s)[p := (heap s ! p)\<lparr>mChanged := False\<rparr>]\<rparr>)"
    using a assms
    by (simp add: sendDatum_def sendBuffer_def append_datum_def append_text_def reset_def
        length_text_def sendToClients_def broadcast_def toString_def Let_def)
next
  assume i: "idle s"
  then have s: "sound s" and t: "mText (mBuffer s) = []"
    by (simp_all add: idle_def)
  show "\<exists>s1. sendInitialData e c s = Ok s1
               \<and> mServer s1 = Some (broadcast sv (map (line e (now e (ticks s))) (frames (initialData s))))"
    by (simp add: sendInitialData_sound[OF s assms t])
  show "\<exists>s2. sendChangedData e s = Ok s2
               \<and> mServer s2 = Some (broadcast sv (map (line e (mTimestamp (mBuffer s))) (frames (changedData s))))"
    by (simp add: sendChangedData_sound[OF s assms t])
next
  show "\<forall>ds. \<forall>g\<in>set (frames ds). \<forall>d\<in>set g. requiresFlush d \<longrightarrow> g = [d]"
    using frames_own_alone by blast
qed

theorem own_line_datum_alone_witness:
  "mServer pendingAdapter = Some sampleServer \<and> 1 < length (heap pendingAdapter)
   \<and> requiresFlush (heap pendingAdapter ! 1)
   \<and> (\<exists>s'. sendDatum sampleEnv 1 pendingAdapter = Ok s'
         \<and> mServer s' = Some (sampleServer\<lparr>outbox :=
                [([1], ''T0|Xact|1.5'' @ [CHR 0x0A]), ([1], ''T0|alarm|HIGH'' @ [CHR 0x0A])]\<rparr>)
         \<and> mText (mBuffer s') = [])
   \<and> mServer sampleAdapter = Some sampleServer \<and> idle sampleAdapter
   \<and> (\<exists>s1. sendInitialData sampleEnv 2 sampleAdapter = Ok s1
         \<and> mServer s1 = Some (sampleServer\<lparr>outbox :=
              [([1], ''T1|Xact|1.5'' @ [CHR 0x0A]), ([1], ''T1|alarm|HIGH'' @ [CHR 0x0A]),
               ([1], ''T1|avail|AVAILABLE'' @ [CHR 0x0A])]\<rparr>))
   \<and> (\<exists>s2. sendChangedData sampleEnv sampleAdapter = Ok s2
         \<and> mServer s2 = Some (sampleServer\<lparr>outbox :=
              [([1], ''T0|Xact|1.5'' @ [CHR 0x0A]), ([1], ''T0|alarm|HIGH'' @ [CHR 0x0A])]\<rparr>))"
proof -
  have a: "mServer sampleAdapter = Some sampleServer" by (simp add: sampleAdapter_def)
  have a': "mServer pendingAdapter = Some sampleServer" by (simp add: pendingAdapter_def a)
  have b: "1 < length (heap pendingAdapter) \<and> requiresFlush (heap pendingAdapter ! 1)"
    by (simp add: pendingAdapter_def sampleAdapter_def requiresFlush_def)
  have c: "idle sampleAdapter" by code_simp
  have l0: "broadcast sampleServer
      ((if mText (mBuffer pendingAdapter) = [] then [] else [mText (mBuffer pendingAdapter) @ [CHR 0x0A]])
        @ [mTimestamp (mBuffer pendingAdapter) @ toString sampleEnv (heap pendingAdapter ! 1) @ [CHR 0x0A]])
      = sampleServer\<lparr>outbox := [([1], ''T0|Xact|1.5'' @ [CHR 0x0A]), ([1], ''T0|alarm|HIGH'' @ [CHR 0x0A])]\<rparr>"
    by code_simp
  have l1: "broadcast sampleServer (map (line sampleEnv (now sampleEnv (ticks sampleAdapter))) (frames (initialData sampleAdapter)))
      = sampleServer\<lparr>outbox := [([1], ''T1|Xact|1.5'' @ [CHR 0x0A]), ([1], ''T1|alarm|HIGH'' @ [CHR 0x0A]),
               ([1], ''T1|avail|AVAILABLE'' @ [CHR 0x0A])]\<rparr>"
    by code_simp
  have l2: "broadcast sampleServer (map (line sampleEnv (mTimestamp (mBuffer sampleAdapter))) (frames (changedData sampleAdapter)))
      = sampleServer\<lparr>outbox := [([1], ''T0|Xact|1.5'' @ [CHR 0x0A]), ([1], ''T0|alarm|HIGH'' @ [CHR 0x0A])]\<rparr>"
    by code_simp
  from own_line_datum_alone[OF a', of 1 sampleEnv 2] b
  have r1: "\<exists>s'. sendDatum sampleEnv 1 pendingAdapter = Ok s'
         \<and> mServer s' = Some (sampleServer\<lparr>outbox :=
                [([1], ''T0|Xact|1.5'' @ [CHR 0x0A]), ([1], ''T0|alarm|HIGH'' @ [CHR 0x0A])]\<rparr>)
         \<and> mText (mBuffer s') = []"
    unfolding l0 by simp
  from own_line_datum_alone[OF a, of 1 sampleEnv 2] c
  have r2: "(\<exists>s1. sendInitialData sampleEnv 2 sampleAdapter = Ok s1
         \<and> mServer s1 = Some (sampleServer\<lparr>outbox :=
              [([1], ''T1|Xact|1.5'' @ [CHR 0x0A]), ([1], ''T1|alarm|HIGH'' @ [CHR 0x0A]),
               ([1], ''T1|avail|AVAILABLE'' @ [CHR 0x0A])]\<rparr>))
   \<and> (\<exists>s2. sendChangedData sampleEnv sampleAdapter = Ok s2
         \<and> mServer s2 = Some (sampleServer\<lparr>outbox :=
              [([1], ''T0|Xact|1.5'' @ [CHR 0x0A]), ([1], ''T0|alarm|HIGH'' @ [CHR 0x0A])]\<rparr>))"
    unfolding l1 l2 by blast
  from a a' b c r1 r2 show ?thesis by blast
qed

subsection \<open>Start and its full syncs\<close>

lemma initialData_frame:
  "mDeviceData s' = mDeviceData s \<Longrightarrow> mNumDeviceData s' = mNumDeviceData s \<Longrightarrow> heap s' = heap s \<Longrightarrow>
   initialData s' = initialData s"
  by (simp add: initialData_def initialPointers_def registry_frame[of s' s])

lemma syncEach_Nil: "syncEach e [] = Ok"
  by (rule ext) simp

lemma toString_erase: "toString e (erase d) = toString e d"
  by (simp add: toString_def erase_def)

lemma line_erase: "line e t (map erase g) = line e t g"
  by (simp add: line_def toString_erase comp_def)

lemma framesFrom_erase:
  "framesFrom (map erase acc) (map erase ds) = map (map erase) (framesFrom acc ds)"
  by (induction acc ds rule: framesFrom.induct) (simp_all add: erase_def)

lemma lines_erase: "map (line e t) (frames (map erase ds)) = map (line e t) (frames ds)"
  using framesFrom_erase[of "[]" ds] by (simp add: frames_def line_erase comp_def)

lemma lines_cong:
  "map erase ds' = map erase ds \<Longrightarrow> map (line e t) (frames ds') = map (line e t) (frames ds)"
  using lines_erase[of e t ds] lines_erase[of e t ds'] by simp

lemma syncLines_cong: "map erase ds' = map erase ds \<Longrightarrow> syncLines e t n ds' = syncLines e t n ds"
  by (simp add: syncLines_def lines_cong[of ds' ds])

lemma syncLines_0: "syncLines e t 0 ds = []"
  by (simp add: syncLines_def)

lemma syncLines_Suc:
  "syncLines e t (Suc n) ds = map (line e (now e t)) (frames ds) @ syncLines e (Suc t) n ds"
proof -
  have "[0..<Suc n] = 0 # map Suc [0..<n]"
    by (simp add: upt_conv_Cons map_Suc_upt del: upt_Suc)
  then show ?thesis
    by (simp add: syncLines_def comp_def del: upt_Suc)
qed

text \<open>Serializing changes neither which datums have a value nor their text.\<close>

lemma initialData_serialized:
  assumes "sound s" and "registry s' = registry s" and "heap s' = serialized ps (heap s)"
  shows "map erase (initialData s') = map erase (initialData s)"
proof -
  have b: "\<forall>p\<in>set (registry s). p < length (heap s)"
    using sound_registry_bound[OF assms(1)] by blast
  have "chosen hasInitialValue (registry s) (serialized ps (heap s))
      = chosen hasInitialValue (registry s) (heap s)"
    unfolding chosen_def using b
    by (intro filter_cong refl) (simp add: serialized_nth hasInitialValue_def)
  moreover have "\<forall>p\<in>set (chosen hasInitialValue (registry s) (heap s)). p < length (heap s)"
    using b chosen_subset by blast
  ultimately show ?thesis
    by (simp add: initialData_def initialPointers_def assms(2,3) datums_def serialized_nth erase_def)
qed

lemma sendInitialData_step:
  assumes "idle s" and "mServer s = Some sv"
  shows "\<exists>s'. sendInitialData e c s = Ok s' \<and> idle s'
            \<and> mServer s' = Some (broadcast sv (map (line e (now e (ticks s))) (frames (initialData s))))
            \<and> disconnects s' = disconnects s \<and> ticks s' = ticks s + 1
            \<and> mTimestamp (mBuffer s') = now e (ticks s)
            \<and> map erase (initialData s') = map erase (initialData s)"
proof -
  from assms(1) have s: "sound s" and t: "mText (mBuffer s) = []"
    by (simp_all add: idle_def)
  define s' where "s' = s\<lparr>mServer := Some (broadcast sv (map (line e (now e (ticks s))) (frames (initialData s)))),
           mBuffer := (mBuffer s)\<lparr>mTimestamp := now e (ticks s)\<rparr>,
           mDisableFlush := False,
           heap := serialized (initialPointers s) (heap s),
           ticks := ticks s + 1\<rparr>"
  have run: "sendInitialData e c s = Ok s'"
    unfolding s'_def by (rule sendInitialData_sound[OF s assms(2) t])
  have "sound s'"
    using s sound_frame[of s' s] by (simp add: s'_def length_serialized)
  then have i: "idle s'"
    using t by (simp add: idle_def s'_def)
  have reg: "registry s' = registry s"
    by (rule registry_frame) (simp_all add: s'_def)
  have "heap s' = serialized (initialPointers s) (heap s)"
    by (simp add: s'_def)
  from initialData_serialized[OF s reg this] run i show ?thesis
    by (simp add: s'_def)
qed

lemma syncEach_sound:
  assumes "idle s" and "mServer s = Some sv"
  shows "\<exists>s'. syncEach e cs s = Ok s' \<and> idle s'
            \<and> mServer s' = Some (broadcast sv (syncLines e (ticks s) (length cs) (initialData s)))
            \<and> disconnects s' = disconnects s \<and> ticks s' = ticks s + length cs
            \<and> (cs = [] \<longrightarrow> mBuffer s' = mBuffer s)"
  using assms
proof (induction cs arbitrary: s sv)
  case Nil
  then show ?case by (simp add: syncLines_0 broadcast_Nil)
next
  case (Cons c cs)
  from sendInitialData_step[OF Cons.prems, of e c]
  obtain s1 where s1: "sendInitialData e c s = Ok s1" "idle s1"
    "mServer s1 = Some (broadcast sv (map (line e (now e (ticks s))) (frames (initialData s))))"
    "disconnects s1 = disconnects s" "ticks s1 = ticks s + 1"
    "map erase (initialData s1) = map erase (initialData s)"
    by blast
  from Cons.IH[OF s1(2) s1(3)]
  obtain s' where s': "syncEach e cs s1 = Ok s'" "idle s'"
    "mServer s' = Some (broadcast (broadcast sv (map (line e (now e (ticks s))) (frames (initialData s))))
                          (syncLines e (ticks s1) (length cs) (initialData s1)))"
    "disconnects s' = disconnects s1" "ticks s' = ticks s1 + length cs"
    by blast
  show ?case
    using s1(1,4,5) s'
    by (simp add: andThen_Ok broadcast_broadcast syncLines_Suc syncLines_cong[OF s1(6)])
qed


text \<open>
  \<^verbatim>\<open>Start\<close> on an idle adapter: every accepted client gets its full sync,
  broadcast to all the clients connected by then; if a client is left after
  reading, the buffer is stamped with one more clock reading.
\<close>

lemma Start_sound:
  assumes "idle s"
  shows "\<exists>s'. Start e accepted gone s = Ok s' \<and> idle s'
     \<and> mServer s' = Some (readFromClients gone
               (broadcast ((serverOf s)\<lparr>clients := clients (serverOf s) @ accepted\<rparr>)
                  (syncLines e (ticks s) (length accepted) (initialData s))))
     \<and> (0 < numClients (readFromClients gone
               (broadcast ((serverOf s)\<lparr>clients := clients (serverOf s) @ accepted\<rparr>)
                  (syncLines e (ticks s) (length accepted) (initialData s)))) \<longrightarrow>
           mTimestamp (mBuffer s') = now e (ticks s + length accepted)
           \<and> ticks s' = ticks s + length accepted + 1)"
proof -
  let ?sv1 = "(serverOf s)\<lparr>clients := clients (serverOf s) @ accepted\<rparr>"
  define s0 where "s0 = s\<lparr>mServer := Some ?sv1\<rparr>"
  have i0: "idle s0"
    using assms idle_frame[of s0 s] by (simp add: s0_def)
  have srv0: "mServer s0 = Some ?sv1" by (simp add: s0_def)
  have d0: "initialData s0 = initialData s"
    by (rule initialData_frame) (simp_all add: s0_def)
  have t0: "ticks s0 = ticks s" by (simp add: s0_def)
  from syncEach_sound[OF i0 srv0, of e accepted]
  obtain s1 where s1: "syncEach e accepted s0 = Ok s1" "idle s1"
    "mServer s1 = Some (broadcast ?sv1 (syncLines e (ticks s) (length accepted) (initialData s)))"
    "ticks s1 = ticks s + length accepted"
    unfolding d0 t0 by blast
  define sv3 where
    "sv3 = readFromClients gone (broadcast ?sv1 (syncLines e (ticks s) (length accepted) (initialData s)))"
  let ?sv3 = sv3
  let ?s2 = "s1\<lparr>mServer := Some ?sv3\<rparr>"
  have i2: "idle ?s2"
    using s1(2) idle_frame[of ?s2 s1] by simp
  have i3: "idle (stampBuffer e ?s2)"
    using i2 idle_frame[of "stampBuffer e ?s2" ?s2] by (simp add: stampBuffer_def timestamp_def)
  have i4: "idle (clientsDisconnected ?s2)"
    using i2 idle_frame[of "clientsDisconnected ?s2" ?s2] by (simp add: clientsDisconnected_def)
  have st: "Start e accepted gone s =
     (if 0 < numClients ?sv3 then Ok (stampBuffer e ?s2)
      else if accepted \<noteq> [] then Ok (clientsDisconnected ?s2) else Ok ?s2)"
  proof -
    have "Start e accepted gone s =
       andThen (syncEach e accepted s0)
         (\<lambda>s1. case mServer s1 of
                  None \<Rightarrow> Raise NullPointer s1
                | Some sv2 \<Rightarrow>
                    if 0 < numClients (readFromClients gone sv2)
                    then Ok (stampBuffer e (s1\<lparr>mServer := Some (readFromClients gone sv2)\<rparr>))
                    else if accepted \<noteq> []
                    then Ok (clientsDisconnected (s1\<lparr>mServer := Some (readFromClients gone sv2)\<rparr>))
                    else Ok (s1\<lparr>mServer := Some (readFromClients gone sv2)\<rparr>))"
      by (simp add: Start_def connectToClients_def serverOf_def Let_def s0_def
          cong: option.case_cong if_cong)
    then show ?thesis
      using s1(3) by (simp add: s1(1) andThen_Ok sv3_def)
  qed
  have "\<exists>s'. Start e accepted gone s = Ok s' \<and> idle s' \<and> mServer s' = Some sv3
     \<and> (0 < numClients sv3 \<longrightarrow>
           mTimestamp (mBuffer s') = now e (ticks s + length accepted)
           \<and> ticks s' = ticks s + length accepted + 1)"
    using i2 i3 i4 s1(4)
    by (simp add: st stampBuffer_def clientsDisconnected_def timestamp_def)
  then show ?thesis
    unfolding sv3_def .
qed

subsection \<open>The form of a transmitted line\<close>

lemma frames_concat: "concat (frames ds) = ds"
  by (simp add: frames_def framesFrom_concat)

lemma frames_nonempty: "[] \<notin> set (frames ds)"
  by (simp add: frames_def framesFrom_nonempty)

lemma outbox_readFromClients: "outbox (readFromClients gone sv) = outbox sv"
  by (simp add: readFromClients_def)

text \<open>
  C4. Take a cycle: \<^verbatim>\<open>Start\<close> on an idle adapter, then writes of datums, which
  leave the buffer and the server as \<^verbatim>\<open>Start\<close> left them. Every line
  broadcast in the cycle begins with a clock reading taken by \<^verbatim>\<open>Start\<close>, goes on
  with the field groups of the datums it carries, at least one, and ends with
  the line terminator. The lines of the k-th full sync begin with the reading
  that sync takes; with a client connected, the lines of the diff send of
  \<^verbatim>\<open>Finish\<close>, and those of \<^verbatim>\<open>unavailable\<close>, begin with the reading \<^verbatim>\<open>Start\<close> takes
  after reading from the clients. With no client \<^verbatim>\<open>Finish\<close> sends nothing.
\<close>

theorem every_line_is_stamped:
  assumes "idle s" and "Start e accepted gone s = Ok s1"
    and "idle s2" and "mBuffer s2 = mBuffer s1" and "mServer s2 = mServer s1"
  shows "\<exists>sv1 s3 s4.
       mServer s1 = Some sv1
     \<and> outbox sv1 = outbox (serverOf s) @
          concat (map (\<lambda>k. map (\<lambda>g. (clients (serverOf s) @ accepted,
                                      now e (ticks s + k) @ concat (map (toString e) g) @ [CHR 0x0A]))
                              (frames (initialData s)))
                      [0..<length accepted])
     \<and> [] \<notin> set (frames (initialData s)) \<and> concat (frames (initialData s)) = initialData s
     \<and> Finish e s2 = Ok s3 \<and> unavailable e s2 = Ok s4
     \<and> (0 < numClients sv1 \<longrightarrow>
           mServer s3 = Some (sv1\<lparr>outbox := outbox sv1 @
              map (\<lambda>g. (clients sv1,
                        now e (ticks s + length accepted) @ concat (map (toString e) g) @ [CHR 0x0A]))
                  (frames (changedData s2))\<rparr>)
         \<and> [] \<notin> set (frames (changedData s2))
         \<and> concat (frames (changedData s2)) = changedData s2
         \<and> mServer s4 = Some (sv1\<lparr>outbox := outbox sv1 @
              map (\<lambda>g. (clients sv1,
                        now e (ticks s + length accepted) @ concat (map (toString e) g) @ [CHR 0x0A]))
                  (frames (map datum_unavailable (datums (registry s2) (heap s2))))\<rparr>))
     \<and> (numClients sv1 = 0 \<longrightarrow> s3 = s2)"
proof -
  let ?sv0 = "(serverOf s)\<lparr>clients := clients (serverOf s) @ accepted\<rparr>"
  define sv1 where
    "sv1 = readFromClients gone (broadcast ?sv0 (syncLines e (ticks s) (length accepted) (initialData s)))"
  from Start_sound[OF assms(1), of e accepted gone] assms(2)
  have srv: "mServer s1 = Some sv1"
    and stamp: "0 < numClients sv1 \<longrightarrow> mTimestamp (mBuffer s1) = now e (ticks s + length accepted)"
    unfolding sv1_def by auto
  have ob: "outbox sv1 = outbox (serverOf s) @
          concat (map (\<lambda>k. map (\<lambda>g. (clients (serverOf s) @ accepted,
                                      now e (ticks s + k) @ concat (map (toString e) g) @ [CHR 0x0A]))
                              (frames (initialData s)))
                      [0..<length accepted])"
    by (simp add: sv1_def outbox_readFromClients broadcast_def syncLines_def map_concat comp_def line_def)
  from assms(3) have s2: "sound s2" and t2: "mText (mBuffer s2) = []" and d2: "\<not> mDisableFlush s2"
    by (simp_all add: idle_def)
  have srv2: "mServer s2 = Some sv1"
    using assms(5) srv by simp
  have m: "\<And>ts gs. broadcast sv1 (map (line e ts) gs) =
      sv1\<lparr>outbox := outbox sv1 @ map (\<lambda>g. (clients sv1, ts @ concat (map (toString e) g) @ [CHR 0x0A])) gs\<rparr>"
    by (simp add: broadcast_def line_def comp_def)
  define s3 where "s3 = (if 0 < numClients sv1
      then s2\<lparr>mServer := Some (broadcast sv1 (map (line e (mTimestamp (mBuffer s2))) (frames (changedData s2)))),
              heap := serialized (changedPointers s2) (heap s2)\<rparr>
      else s2)"
  have f3: "Finish e s2 = Ok s3"
    by (simp add: Finish_sound[OF s2 srv2 t2] s3_def)
  define s4 where "s4 = s2\<lparr>mServer := Some (broadcast sv1 (map (line e (mTimestamp (mBuffer s2)))
              (frames (map datum_unavailable (datums (registry s2) (heap s2)))))),
           mBuffer := (mBuffer s2)\<lparr>mTimestamp := now e (ticks s2)\<rparr>,
           heap := serialized (registry s2) (forced (registry s2) (heap s2)),
           ticks := ticks s2 + 1\<rparr>"
  have f4: "unavailable e s2 = Ok s4"
    unfolding s4_def by (rule unavailable_sound[OF s2 srv2 t2 d2])
  have c3: "0 < numClients sv1 \<longrightarrow>
           mServer s3 = Some (sv1\<lparr>outbox := outbox sv1 @
              map (\<lambda>g. (clients sv1,
                        now e (ticks s + length accepted) @ concat (map (toString e) g) @ [CHR 0x0A]))
                  (frames (changedData s2))\<rparr>)
         \<and> mServer s4 = Some (sv1\<lparr>outbox := outbox sv1 @
              map (\<lambda>g. (clients sv1,
                        now e (ticks s + length accepted) @ concat (map (toString e) g) @ [CHR 0x0A]))
                  (frames (map datum_unavailable (datums (registry s2) (heap s2))))\<rparr>)"
    using stamp assms(4) by (simp add: s3_def s4_def m)
  have c0: "numClients sv1 = 0 \<longrightarrow> s3 = s2"
    by (simp add: s3_def)
  have fr: "[] \<notin> set (frames (initialData s))" "concat (frames (initialData s)) = initialData s"
    "[] \<notin> set (frames (changedData s2))" "concat (frames (changedData s2)) = changedData s2"
    by (simp_all add: frames_nonempty frames_concat)
  show ?thesis
    apply (rule exI[of _ sv1])
    apply (rule exI[of _ s3])
    apply (rule exI[of _ s4])
    using srv ob f3 f4 c3 c0 fr
    apply blast
    done
qed

theorem every_line_is_stamped_witness:
  "idle sampleAdapter \<and> Start sampleEnv [2] [] sampleAdapter = Ok syncedAdapter
   \<and> idle rewrittenAdapter \<and> mBuffer rewrittenAdapter = mBuffer syncedAdapter
   \<and> mServer rewrittenAdapter = mServer syncedAdapter
   \<and> (\<exists>sv1 s3. mServer syncedAdapter = Some sv1 \<and> 0 < numClients sv1
         \<and> outbox sv1 = [([1, 2], ''T1|Xact|1.5'' @ [CHR 0x0A]),
                          ([1, 2], ''T1|alarm|HIGH'' @ [CHR 0x0A]),
                          ([1, 2], ''T1|avail|AVAILABLE'' @ [CHR 0x0A])]
         \<and> Finish sampleEnv rewrittenAdapter = Ok s3
         \<and> mServer s3 = Some (sv1\<lparr>outbox := outbox sv1 @ [([1, 2], ''T2|Xact|1.5'' @ [CHR 0x0A])]\<rparr>))
   \<and> Start sampleEnv [] [1] sampleAdapter = Ok (sampleAdapter\<lparr>mServer := Some (sampleServer\<lparr>clients := []\<rparr>)\<rparr>)
   \<and> idle (sampleAdapter\<lparr>mServer := Some (sampleServer\<lparr>clients := []\<rparr>)\<rparr>)
   \<and> numClients (sampleServer\<lparr>clients := []\<rparr>) = 0
   \<and> Finish sampleEnv (sampleAdapter\<lparr>mServer := Some (sampleServer\<lparr>clients := []\<rparr>)\<rparr>)
        = Ok (sampleAdapter\<lparr>mServer := Some (sampleServer\<lparr>clients := []\<rparr>)\<rparr>)"
proof -
  have a: "idle sampleAdapter" by code_simp
  have b: "Start sampleEnv [2] [] sampleAdapter = Ok syncedAdapter" by code_simp
  have c: "idle rewrittenAdapter" by code_simp
  have d: "mBuffer rewrittenAdapter = mBuffer syncedAdapter" "mServer rewrittenAdapter = mServer syncedAdapter"
    by (simp_all add: rewrittenAdapter_def)
  have n: "0 < numClients (the (mServer syncedAdapter))" by code_simp
  have o: "outbox (the (mServer syncedAdapter)) = [([1, 2], ''T1|Xact|1.5'' @ [CHR 0x0A]),
                          ([1, 2], ''T1|alarm|HIGH'' @ [CHR 0x0A]),
                          ([1, 2], ''T1|avail|AVAILABLE'' @ [CHR 0x0A])]"
    by code_simp
  have l: "map (\<lambda>g. (clients (the (mServer syncedAdapter)),
                        now sampleEnv (ticks sampleAdapter + length [2::nat])
                          @ concat (map (toString sampleEnv) g) @ [CHR 0x0A]))
                  (frames (changedData rewrittenAdapter))
       = [([1, 2], ''T2|Xact|1.5'' @ [CHR 0x0A])]"
    by code_simp
  from every_line_is_stamped[OF a b c d]
  obtain sv1 s3 where r: "mServer syncedAdapter = Some sv1" "Finish sampleEnv rewrittenAdapter = Ok s3"
    "0 < numClients sv1 \<longrightarrow>
           mServer s3 = Some (sv1\<lparr>outbox := outbox sv1 @
              map (\<lambda>g. (clients sv1,
                        now sampleEnv (ticks sampleAdapter + length [2::nat])
                          @ concat (map (toString sampleEnv) g) @ [CHR 0x0A]))
                  (frames (changedData rewrittenAdapter))\<rparr>)"
    by (elim exE conjE) auto
  from r(1) have sv1: "sv1 = the (mServer syncedAdapter)" by simp
  from r n o l have first: "\<exists>sv1 s3. mServer syncedAdapter = Some sv1 \<and> 0 < numClients sv1
         \<and> outbox sv1 = [([1, 2], ''T1|Xact|1.5'' @ [CHR 0x0A]),
                          ([1, 2], ''T1|alarm|HIGH'' @ [CHR 0x0A]),
                          ([1, 2], ''T1|avail|AVAILABLE'' @ [CHR 0x0A])]
         \<and> Finish sampleEnv rewrittenAdapter = Ok s3
         \<and> mServer s3 = Some (sv1\<lparr>outbox := outbox sv1 @ [([1, 2], ''T2|Xact|1.5'' @ [CHR 0x0A])]\<rparr>)"
    unfolding sv1 by auto
  define q where "q = sampleAdapter\<lparr>mServer := Some (sampleServer\<lparr>clients := []\<rparr>)\<rparr>"
  have b': "Start sampleEnv [] [1] sampleAdapter = Ok q" unfolding q_def by code_simp
  have c': "idle q" unfolding q_def by code_simp
  have n': "numClients (sampleServer\<lparr>clients := []\<rparr>) = 0" by code_simp
  have sq: "mServer q = Some (sampleServer\<lparr>clients := []\<rparr>)" by (simp add: q_def)
  from every_line_is_stamped[OF a b' c' refl refl]
  obtain sv1' s3' where r': "mServer q = Some sv1'" "Finish sampleEnv q = Ok s3'"
    "numClients sv1' = 0 \<longrightarrow> s3' = q"
    by (elim exE conjE) auto
  from r'(1) sq have "sv1' = sampleServer\<lparr>clients := []\<rparr>" by simp
  with r' n' have second: "Finish sampleEnv q = Ok q" by simp
  from a b c d first b' c' n' second show ?thesis
    unfolding q_def by blast
qed

subsection \<open>Forcing every datum unavailable\<close>

lemma toString_unavailable: "toString e (datum_unavailable d) = ''|'' @ mName d @ ''|UNAVAILABLE''"
  by (simp add: toString_def datum_unavailable_def setValue_def valueText_def)

text \<open>
  Before the first \<^verbatim>\<open>Start\<close> there is no server: \<^verbatim>\<open>sendBuffer\<close> does nothing, so
  the datums are marked, serialized into the buffer and the buffer is reset
  without anything being transmitted.
\<close>

lemma unavailable_before_first_Start:
  "unavailable sampleEnv (sampleAdapter\<lparr>mServer := None\<rparr>) =
     Ok (sampleAdapter\<lparr>mServer := None,
                        mBuffer := \<lparr>mText = [], mTimestamp = ''T1''\<rparr>,
                        heap := map (\<lambda>d. d\<lparr>mValue := UNAVAILABLE, mChanged := False\<rparr>)
                                  (heap sampleAdapter),
                        ticks := 2\<rparr>)"
  by code_simp

text \<open>
  C6. \<^verbatim>\<open>unavailable\<close>, on an adapter that has a server and is between two
  operations, marks every registered datum unavailable and runs the diff send
  at once: whatever the dirty flags were, the lines it broadcasts are the frames
  of all the registered datums, in registration order, each rendered as
  UNAVAILABLE.
\<close>

theorem unavailable_flushes_every_datum:
  assumes "idle s" and "mServer s = Some sv"
  shows "\<exists>s'. unavailable e s = Ok s'
     \<and> (\<forall>p\<in>set (registry s). mValue (heap s' ! p) = UNAVAILABLE)
     \<and> mServer s' = Some (broadcast sv (map (line e (mTimestamp (mBuffer s)))
                             (frames (map datum_unavailable (datums (registry s) (heap s))))))
     \<and> concat (frames (map datum_unavailable (datums (registry s) (heap s))))
         = map datum_unavailable (map (\<lambda>p. heap s ! p) (registry s))
     \<and> (\<forall>d. toString e (datum_unavailable d) = ''|'' @ mName d @ ''|UNAVAILABLE'')"
proof -
  from assms(1) have s: "sound s" and t: "mText (mBuffer s) = []" and d: "\<not> mDisableFlush s"
    by (simp_all add: idle_def)
  have "\<forall>p\<in>set (registry s). mValue (serialized (registry s) (forced (registry s) (heap s)) ! p) = UNAVAILABLE"
    using sound_registry_bound[OF s]
    by (simp add: serialized_nth length_forced forced_nth datum_unavailable_def setValue_def)
  then show ?thesis
    by (simp add: unavailable_sound[OF s assms(2) t d] frames_concat toString_unavailable datums_def)
qed

theorem unavailable_flushes_every_datum_witness:
  "idle sampleAdapter \<and> mServer sampleAdapter = Some sampleServer
   \<and> registry sampleAdapter = [0, 1, 2]
   \<and> (\<exists>s'. unavailable sampleEnv sampleAdapter = Ok s'
         \<and> mValue (heap s' ! 0) = UNAVAILABLE \<and> mValue (heap s' ! 1) = UNAVAILABLE
         \<and> mValue (heap s' ! 2) = UNAVAILABLE
         \<and> mServer s' = Some (sampleServer\<lparr>outbox :=
              [([1], ''T0|Xact|UNAVAILABLE'' @ [CHR 0x0A]), ([1], ''T0|alarm|UNAVAILABLE'' @ [CHR 0x0A]),
               ([1], ''T0|avail|UNAVAILABLE'' @ [CHR 0x0A])]\<rparr>))"
proof -
  have a: "idle sampleAdapter" by code_simp
  have b: "mServer sampleAdapter = Some sampleServer" by (simp add: sampleAdapter_def)
  have r: "registry sampleAdapter = [0, 1, 2]" by code_simp
  have l: "broadcast sampleServer (map (line sampleEnv (mTimestamp (mBuffer sampleAdapter)))
             (frames (map datum_unavailable (datums (registry sampleAdapter) (heap sampleAdapter)))))
      = sampleServer\<lparr>outbox :=
              [([1], ''T0|Xact|UNAVAILABLE'' @ [CHR 0x0A]), ([1], ''T0|alarm|UNAVAILABLE'' @ [CHR 0x0A]),
               ([1], ''T0|avail|UNAVAILABLE'' @ [CHR 0x0A])]\<rparr>"
    by code_simp
  from unavailable_flushes_every_datum[OF a b, of sampleEnv] a b r show ?thesis
    unfolding l by auto
qed

subsection \<open>The full sync\<close>

lemma frames_plain: "\<forall>d\<in>set ds. \<not> requiresFlush d \<Longrightarrow> ds \<noteq> [] \<Longrightarrow> frames ds = [ds]"
  using framesFrom_plain[of ds "[]"] by (simp add: frames_def requiresFlush_def)

lemma received_append_clients:
  "received c (sv\<lparr>clients := cl\<rparr>) = received c sv"
  by (simp add: received_def)

text \<open>
  C1. The claim that the full sync suspends the immediate flush of the datums
  that require their own line and flushes exactly once fails: \<^verbatim>\<open>mDisableFlush\<close>
  is only read by \<^verbatim>\<open>flush\<close>, not by \<^verbatim>\<open>sendDatum\<close>. For the sample adapter,
  whose three datums all have a value and whose second one requires its own
  line, the client accepted by \<^verbatim>\<open>Start\<close> receives three lines, the first with
  the first datum only.
\<close>

theorem full_sync_counterexample:
  "Start sampleEnv [2] [] sampleAdapter = Ok syncedAdapter
   \<and> map mName (initialData sampleAdapter) = [''Xact'', ''alarm'', ''avail'']
   \<and> received 2 (the (mServer sampleAdapter)) = []
   \<and> received 2 (the (mServer syncedAdapter))
       = [''T1|Xact|1.5'' @ [CHR 0x0A], ''T1|alarm|HIGH'' @ [CHR 0x0A],
          ''T1|avail|AVAILABLE'' @ [CHR 0x0A]]"
  by code_simp

text \<open>
  C1, as amended. For every client newly accepted by \<^verbatim>\<open>Start\<close> the full sync
  serializes every datum that has a value, dirty or not, in registration order,
  and ends with a flush; its lines are the frames of these datums, so a datum
  that requires its own line is still sent alone. \<^verbatim>\<open>sendBuffer\<close> broadcasts to
  all connected clients, the newly accepted ones included, so what a new client
  has received when \<^verbatim>\<open>Start\<close> returns, before any diff send, is one such sync
  for each client accepted in that call. When no datum with a value requires
  its own line and there is at least one, each sync is one single line carrying
  them all. \<^verbatim>\<open>mDisableFlush\<close> is false again afterwards.
\<close>

theorem full_sync_is_first:
  assumes "idle s" and "c \<in> set accepted" and "received c (serverOf s) = []"
  shows "\<exists>s' sv'. Start e accepted gone s = Ok s' \<and> mServer s' = Some sv' \<and> \<not> mDisableFlush s'
     \<and> received c sv' =
          concat (map (\<lambda>k. map (line e (now e (ticks s + k))) (frames (initialData s)))
                      [0..<length accepted])
     \<and> concat (frames (initialData s)) = initialData s
     \<and> initialData s = map (\<lambda>p. heap s ! p) (filter (\<lambda>p. mHasValue (heap s ! p)) (registry s))
     \<and> ((\<forall>d\<in>set (initialData s). \<not> requiresFlush d) \<and> initialData s \<noteq> [] \<longrightarrow>
          received c sv' =
            map (\<lambda>k. line e (now e (ticks s + k)) (initialData s)) [0..<length accepted])"
proof -
  let ?sv1 = "(serverOf s)\<lparr>clients := clients (serverOf s) @ accepted\<rparr>"
  let ?L = "syncLines e (ticks s) (length accepted) (initialData s)"
  from Start_sound[OF assms(1), of e accepted gone]
  obtain s' where s': "Start e accepted gone s = Ok s'" "idle s'"
    "mServer s' = Some (readFromClients gone (broadcast ?sv1 ?L))"
    by blast
  have rc: "received c (readFromClients gone (broadcast ?sv1 ?L)) = ?L"
    using assms(2,3) by (simp add: received_readFromClients received_broadcast received_append_clients)
  have d: "initialData s = map (\<lambda>p. heap s ! p) (filter (\<lambda>p. mHasValue (heap s ! p)) (registry s))"
    by (simp add: initialData_def initialPointers_def datums_def chosen_def hasInitialValue_def)
  have one: "(\<forall>d\<in>set (initialData s). \<not> requiresFlush d) \<and> initialData s \<noteq> [] \<longrightarrow>
       ?L = map (\<lambda>k. line e (now e (ticks s + k)) (initialData s)) [0..<length accepted]"
    using frames_plain[of "initialData s"] by (simp add: syncLines_def comp_def)
  have L: "?L = concat (map (\<lambda>k. map (line e (now e (ticks s + k))) (frames (initialData s)))
                      [0..<length accepted])"
    by (simp add: syncLines_def)
  define sv' where "sv' = readFromClients gone (broadcast ?sv1 ?L)"
  have r1: "received c sv' =
      concat (map (\<lambda>k. map (line e (now e (ticks s + k))) (frames (initialData s)))
                      [0..<length accepted])"
    unfolding sv'_def rc by (rule L)
  have r2: "(\<forall>d\<in>set (initialData s). \<not> requiresFlush d) \<and> initialData s \<noteq> [] \<longrightarrow>
          received c sv' =
            map (\<lambda>k. line e (now e (ticks s + k)) (initialData s)) [0..<length accepted]"
    unfolding sv'_def rc by (rule one)
  have r3: "mServer s' = Some sv'" "\<not> mDisableFlush s'"
    using s'(2,3) by (simp_all add: sv'_def idle_def)
  have r4: "concat (frames (initialData s)) = initialData s"
    by (rule frames_concat)
  from s'(1) r3 r1 r4 d r2 show ?thesis
    by blast
qed

theorem full_sync_is_first_witness:
  "idle plainAdapter \<and> 2 \<in> set [2, 3 :: nat] \<and> received 2 (serverOf plainAdapter) = []
   \<and> map mName (initialData plainAdapter) = [''Xact'', ''avail'']
   \<and> (\<exists>s' sv'. Start sampleEnv [2, 3] [] plainAdapter = Ok s' \<and> mServer s' = Some sv'
          \<and> received 2 sv' = [''T1|Xact|1.5|avail|AVAILABLE'' @ [CHR 0x0A],
                               ''T2|Xact|1.5|avail|AVAILABLE'' @ [CHR 0x0A]])"
proof -
  have a: "idle plainAdapter" by code_simp
  have b: "received 2 (serverOf plainAdapter) = []" by code_simp
  have m: "2 \<in> set [2, 3 :: nat]" by simp
  have c: "map mName (initialData plainAdapter) = [''Xact'', ''avail'']" by code_simp
  have p: "(\<forall>d\<in>set (initialData plainAdapter). \<not> requiresFlush d) \<and> initialData plainAdapter \<noteq> []"
    by code_simp
  have l: "map (\<lambda>k. line sampleEnv (now sampleEnv (ticks plainAdapter + k)) (initialData plainAdapter))
              [0..<length [2, 3 :: nat]]
      = [''T1|Xact|1.5|avail|AVAILABLE'' @ [CHR 0x0A], ''T2|Xact|1.5|avail|AVAILABLE'' @ [CHR 0x0A]]"
    by code_simp
  from full_sync_is_first[OF a m b, of sampleEnv "[]"] p a b c m show ?thesis
    unfolding l by auto
qed

subsection \<open>The setters of PulseAdapter\<close>

lemma allMembers_complete: "m \<in> set allMembers"
  by (cases m) (simp_all add: allMembers_def)

lemma wired_iff:
  "wired s \<longleftrightarrow>
     (\<forall>m p. members s m = Some p \<longrightarrow>
        p < length (heap s) \<and> p \<in> set (registry s) \<and> (\<forall>m'. members s m' = Some p \<longrightarrow> m' = m))"
  unfolding wired_def list_all_iff using allMembers_complete
  by (auto split: option.splits)

lemma addDatum_Ok:
  "addDatum p s = Ok s' \<Longrightarrow>
   mNumDeviceData s + 1 < length (mDeviceData s) \<and>
   s' = s\<lparr>mNumDeviceData := mNumDeviceData s + 1,
          mDeviceData := (mDeviceData s)[mNumDeviceData s := Some p, mNumDeviceData s + 1 := None]\<rparr>"
  by (auto simp add: addDatum_def Let_def split: if_splits)

lemma registry_addDatum:
  assumes "mNumDeviceData s < length (mDeviceData s)"
  shows "registry (s\<lparr>mNumDeviceData := mNumDeviceData s + 1,
          mDeviceData := (mDeviceData s)[mNumDeviceData s := Some p, mNumDeviceData s + 1 := None]\<rparr>)
         = registry s @ [p]"
  using assms by (simp add: registry_def pointersAt_def)

lemma isInr_iff: "(case x of Inl err \<Rightarrow> False | Inr p \<Rightarrow> True) = (\<exists>p. x = Inr p)"
  by (cases x) auto

lemma sound_iff:
  "sound s \<longleftrightarrow> (\<forall>i<mNumDeviceData s. \<exists>p. deviceDatumAt i s = Inr p) \<and> distinct (registry s)"
  by (auto simp add: sound_def soundAt_def list_all_iff registry_def isInr_iff)

lemma invoke_Ok:
  "invoke m f s = Ok s' \<Longrightarrow>
   \<exists>p. members s m = Some p \<and> p < length (heap s) \<and> s' = s\<lparr>heap := (heap s)[p := f (heap s ! p)]\<rparr>"
  by (auto simp add: invoke_def split: option.splits if_splits)


lemma deviceDatumAt_iff:
  "(\<exists>p. deviceDatumAt i s = Inr p) \<longleftrightarrow>
     i < length (mDeviceData s) \<and> (\<exists>p. mDeviceData s ! i = Some p \<and> p < length (heap s))"
  by (auto simp add: deviceDatumAt_def split: option.splits)

text \<open>Creating a datum through a member that is still null.\<close>

lemma ensure_new:
  assumes "members s m = None" and "ensure m fresh s = Ok s'"
  shows "mNumDeviceData s + 1 < length (mDeviceData s)
     \<and> s' = s\<lparr>heap := heap s @ [fresh], members := (members s)(m := Some (length (heap s))),
               mNumDeviceData := mNumDeviceData s + 1,
               mDeviceData := (mDeviceData s)[mNumDeviceData s := Some (length (heap s)),
                                              mNumDeviceData s + 1 := None]\<rparr>"
  using assms(2) addDatum_Ok[of "length (heap s)"
      "s\<lparr>heap := heap s @ [fresh], members := (members s)(m := Some (length (heap s)))\<rparr>" s']
  by (simp add: ensure_def assms(1) Let_def)

lemma ensure_old: "members s m = Some p \<Longrightarrow> ensure m fresh s = Ok s"
  by (simp add: ensure_def)

lemma ensure_keeps:
  assumes "sound s" and "wired s" and "ensure m fresh s = Ok s'"
  shows "sound s' \<and> wired s' \<and> mBuffer s' = mBuffer s \<and> mDisableFlush s' = mDisableFlush s
     \<and> (\<exists>p. members s' m = Some p \<and> p < length (heap s')
            \<and> (members s m = None \<longrightarrow> heap s' ! p = fresh)
            \<and> (\<forall>q<length (heap s). heap s' ! q = heap s ! q)
            \<and> (\<forall>m'. m' \<noteq> m \<longrightarrow> members s' m' = members s m'))"
proof (cases "members s m")
  case (Some p)
  then show ?thesis
    using assms ensure_old[OF Some, of fresh] by (auto simp add: wired_iff)
next
  case None
  let ?n = "mNumDeviceData s"
  let ?p = "length (heap s)"
  from ensure_new[OF None assms(3)]
  have room: "?n + 1 < length (mDeviceData s)"
    and s': "s' = s\<lparr>heap := heap s @ [fresh], members := (members s)(m := Some ?p),
               mNumDeviceData := ?n + 1,
               mDeviceData := (mDeviceData s)[?n := Some ?p, ?n + 1 := None]\<rparr>"
    by simp_all
  let ?s0 = "s\<lparr>heap := heap s @ [fresh], members := (members s)(m := Some ?p)\<rparr>"
  have reg0: "registry ?s0 = registry s"
    by (rule registry_frame) simp_all
  have reg: "registry s' = registry s @ [?p]"
    using registry_addDatum[of ?s0 ?p] room by (simp add: s' reg0)
  have old: "\<forall>q\<in>set (registry s). q < ?p"
    using sound_registry_bound[OF assms(1)] by blast
  have valid: "\<forall>i<mNumDeviceData s'. \<exists>q. deviceDatumAt i s' = Inr q"
  proof (intro allI impI)
    fix i assume "i < mNumDeviceData s'"
    then have "i < ?n \<or> i = ?n" by (auto simp add: s')
    then show "\<exists>q. deviceDatumAt i s' = Inr q"
    proof
      assume i: "i < ?n"
      with assms(1) obtain q where "deviceDatumAt i s = Inr q"
        by (auto simp add: sound_iff)
      then have "mDeviceData s ! i = Some q" "q < ?p"
        by (auto dest: deviceDatumAt_Inr)
      then show ?thesis
        using i room by (simp add: deviceDatumAt_iff s')
    next
      assume "i = ?n"
      then show ?thesis
        using room by (simp add: deviceDatumAt_iff s')
    qed
  qed
  have "distinct (registry s')"
    using assms(1) old by (auto simp add: reg sound_iff)
  with valid have snd: "sound s'"
    by (simp add: sound_iff)
  have mem: "members s' = (members s)(m := Some ?p)" and hp: "heap s' = heap s @ [fresh]"
    by (simp_all add: s')
  have w: "wired s'"
    unfolding wired_iff reg mem hp
  proof (intro allI impI)
    fix a q
    assume a: "((members s)(m := Some ?p)) a = Some q"
    show "q < length (heap s @ [fresh]) \<and> q \<in> set (registry s @ [?p])
        \<and> (\<forall>m'. ((members s)(m := Some ?p)) m' = Some q \<longrightarrow> m' = a)"
    proof (cases "a = m")
      case True
      with a have q: "q = ?p" by simp
      have "\<forall>m'. members s m' \<noteq> Some ?p"
        using assms(2) unfolding wired_iff by fastforce
      then show ?thesis
        using True q by simp
    next
      case False
      with a have old_a: "members s a = Some q" by simp
      with assms(2) have "q < ?p" "q \<in> set (registry s)" "\<forall>m'. members s m' = Some q \<longrightarrow> m' = a"
        unfolding wired_iff by blast+
      then show ?thesis
        by auto
    qed
  qed
  show ?thesis
    using snd w None by (simp add: s' nth_append)
qed



lemma wired_frame:
  "members s' = members s \<Longrightarrow> registry s' = registry s \<Longrightarrow> length (heap s') = length (heap s) \<Longrightarrow>
   wired s' = wired s"
  by (simp add: wired_iff)

lemma invoke_keeps:
  assumes "sound s" and "wired s" and "invoke m f s = Ok s'"
  shows "sound s' \<and> wired s' \<and> mBuffer s' = mBuffer s \<and> mDisableFlush s' = mDisableFlush s
     \<and> members s' = members s \<and> length (heap s') = length (heap s)
     \<and> (\<exists>p. members s m = Some p \<and> p < length (heap s) \<and> heap s' = (heap s)[p := f (heap s ! p)])"
proof -
  from invoke_Ok[OF assms(3)] obtain p where p: "members s m = Some p" "p < length (heap s)"
    "s' = s\<lparr>heap := (heap s)[p := f (heap s ! p)]\<rparr>"
    by blast
  have reg: "registry s' = registry s"
    by (rule registry_frame) (simp_all add: p(3))
  have "sound s'"
    using assms(1) sound_frame[of s' s] by (simp add: p(3))
  moreover have "wired s'"
    using assms(2) wired_frame[of s' s] reg by (simp add: p(3))
  ultimately show ?thesis
    using p by simp
qed

lemma andThen_Ok_iff: "andThen r f = Ok s' \<longleftrightarrow> (\<exists>s1. r = Ok s1 \<and> f s1 = Ok s')"
  by (cases r) (simp_all add: andThen_def)

lemma Available_set_keeps:
  assumes "sound s" and "wired s" and "Available_set True s = Ok s'"
  shows "sound s' \<and> wired s' \<and> mBuffer s' = mBuffer s \<and> mDisableFlush s' = mDisableFlush s
     \<and> (\<exists>pa. members s' p_availability = Some pa \<and> pa < length (heap s')
            \<and> mValue (heap s' ! pa) = eAVAILABLE \<and> mChanged (heap s' ! pa) \<and> mHasValue (heap s' ! pa)
            \<and> (\<forall>q<length (heap s). q \<noteq> pa \<longrightarrow> heap s' ! q = heap s ! q)
            \<and> (\<forall>m'. m' \<noteq> p_availability \<longrightarrow> members s' m' = members s m'))"
proof -
  from assms(3) obtain s1 where s1: "ensure p_availability (Availability ''avail'') s = Ok s1"
    "invoke p_availability available s1 = Ok s'"
    by (auto simp add: Available_set_def andThen_Ok_iff)
  from ensure_keeps[OF assms(1,2) s1(1)]
  have k1: "sound s1" "wired s1" "mBuffer s1 = mBuffer s" "mDisableFlush s1 = mDisableFlush s"
    "\<forall>q<length (heap s). heap s1 ! q = heap s ! q"
    "\<forall>m'. m' \<noteq> p_availability \<longrightarrow> members s1 m' = members s m'"
    by auto
  from invoke_keeps[OF k1(1,2) s1(2)]
  obtain pa where k2: "sound s'" "wired s'" "mBuffer s' = mBuffer s1" "mDisableFlush s' = mDisableFlush s1"
    "members s' = members s1" "length (heap s') = length (heap s1)"
    "members s1 p_availability = Some pa" "pa < length (heap s1)"
    "heap s' = (heap s1)[pa := available (heap s1 ! pa)]"
    by auto
  show ?thesis
    using k1 k2 by (auto simp add: available_def setValue_def)
qed

lemma writeChannel_keeps:
  assumes "sound s" and "wired s" and "m \<noteq> p_availability" and "writeChannel m fresh aValue s = Ok s'"
  shows "sound s' \<and> wired s' \<and> mBuffer s' = mBuffer s \<and> mDisableFlush s' = mDisableFlush s
     \<and> (\<exists>pa pc. members s' p_availability = Some pa \<and> members s' m = Some pc \<and> pa \<noteq> pc
            \<and> pa \<in> set (registry s') \<and> pc \<in> set (registry s')
            \<and> mValue (heap s' ! pa) = eAVAILABLE \<and> mChanged (heap s' ! pa) \<and> mHasValue (heap s' ! pa)
            \<and> mValue (heap s' ! pc) = aValue \<and> mChanged (heap s' ! pc) \<and> mHasValue (heap s' ! pc))"
proof -
  from assms(4) obtain s1 s2 where st: "ensure m fresh s = Ok s1"
    "invoke m (setValue aValue) s1 = Ok s2" "Available_set True s2 = Ok s'"
    by (auto simp add: writeChannel_def andThen_Ok_iff)
  from ensure_keeps[OF assms(1,2) st(1)]
  have k1: "sound s1" "wired s1" "mBuffer s1 = mBuffer s" "mDisableFlush s1 = mDisableFlush s"
    by auto
  from invoke_keeps[OF k1(1,2) st(2)]
  obtain pc where k2: "sound s2" "wired s2" "mBuffer s2 = mBuffer s1" "mDisableFlush s2 = mDisableFlush s1"
    "members s2 = members s1" "members s1 m = Some pc" "pc < length (heap s1)"
    "length (heap s2) = length (heap s1)"
    "heap s2 = (heap s1)[pc := setValue aValue (heap s1 ! pc)]"
    by auto
  from Available_set_keeps[OF k2(1,2) st(3)]
  obtain pa where k3: "sound s'" "wired s'" "mBuffer s' = mBuffer s2" "mDisableFlush s' = mDisableFlush s2"
    "members s' p_availability = Some pa"
    "mValue (heap s' ! pa) = eAVAILABLE" "mChanged (heap s' ! pa)" "mHasValue (heap s' ! pa)"
    "\<forall>q<length (heap s2). q \<noteq> pa \<longrightarrow> heap s' ! q = heap s2 ! q"
    "\<forall>m'. m' \<noteq> p_availability \<longrightarrow> members s' m' = members s2 m'"
    by auto
  have pc: "members s' m = Some pc"
    using k3(10) assms(3) k2(5,6) by simp
  have ne: "pa \<noteq> pc"
    using k3(2,5) pc assms(3) unfolding wired_iff by blast
  have regs: "pa \<in> set (registry s')" "pc \<in> set (registry s')"
    using k3(2,5) pc unfolding wired_iff by blast+
  have "heap s' ! pc = setValue aValue (heap s1 ! pc)"
    using k3(9) k2(7,8,9) ne by simp
  then have v: "mValue (heap s' ! pc) = aValue" "mChanged (heap s' ! pc)" "mHasValue (heap s' ! pc)"
    by (simp_all add: setValue_def)
  show ?thesis
    using k1 k2(3,4) k3(1-8) pc ne regs v by auto
qed

lemma perform_writeChannel:
  "channel w \<noteq> p_availability \<and> (\<exists>fresh. perform w = writeChannel (channel w) fresh (written w))"
  by (cases w)
     (auto simp add: X_set_def Y_set_def Z_set_def U_set_def V_set_def W_set_def A_set_def B_set_def
        C_set_def Feedrate_set_def SpindleLoad_set_def SpindleSpeed_set_def Manual_set_def
        FeedrateOverride_set_def SpindleSpeedOverride_set_def Running_set_def ProgramName_set_def)



lemma idle_newPulseAdapter: "idle newPulseAdapter"
  by (simp add: idle_def sound_def soundAt_def pointersAt_def newPulseAdapter_def newStringBuffer_def)

lemma wired_newPulseAdapter: "wired newPulseAdapter"
  by (simp add: wired_iff newPulseAdapter_def)



lemma distinct_allMembers: "distinct allMembers"
  by (simp add: allMembers_def)

lemma length_allMembers: "length allMembers = 18"
  by (simp add: allMembers_def)

lemma filter_one_more:
  "distinct xs \<Longrightarrow> m \<in> set xs \<Longrightarrow> \<not> P m \<Longrightarrow>
   length (filter (\<lambda>x. x = m \<or> P x) xs) = Suc (length (filter P xs))"
proof (induction xs)
  case Nil
  then show ?case by simp
next
  case (Cons x xs)
  show ?case
  proof (cases "x = m")
    case True
    with Cons.prems have "m \<notin> set xs" by simp
    then have "filter (\<lambda>x. x = m \<or> P x) xs = filter P xs"
      by (auto intro: filter_cong)
    with True Cons.prems(3) show ?thesis by simp
  next
    case False
    with Cons show ?thesis by simp
  qed
qed

lemma members_set_count:
  assumes "members s m = None"
  shows "length (filter (\<lambda>m'. ((members s)(m := Some p)) m' \<noteq> None) allMembers)
           = Suc (length (filter (\<lambda>m'. members s m' \<noteq> None) allMembers))"
proof -
  have "(\<lambda>m'. ((members s)(m := Some p)) m' \<noteq> None) = (\<lambda>m'. m' = m \<or> members s m' \<noteq> None)"
    by auto
  then show ?thesis
    using filter_one_more[OF distinct_allMembers allMembers_complete[of m],
        of "\<lambda>m'. members s m' \<noteq> None"] assms
    by simp
qed

lemma members_room:
  assumes "members s m = None"
  shows "length (filter (\<lambda>m'. members s m' \<noteq> None) allMembers) < 18"
proof -
  have "length (filter (\<lambda>m'. ((members s)(m := Some 0)) m' \<noteq> None) allMembers) \<le> length allMembers"
    by (rule length_filter_le)
  then show ?thesis
    using members_set_count[OF assms, of 0] by (simp add: length_allMembers)
qed

lemma ensure_succeeds:
  assumes "tidy s"
  shows "\<exists>s'. ensure m fresh s = Ok s' \<and> tidy s'"
proof (cases "members s m")
  case (Some p)
  then show ?thesis
    using assms by (simp add: ensure_def)
next
  case None
  from assms have len: "length (mDeviceData s) = 128"
    and cnt: "mNumDeviceData s = length (filter (\<lambda>m. members s m \<noteq> None) allMembers)"
    by (simp_all add: tidy_def)
  from members_room[OF None] cnt have room: "mNumDeviceData s < 18"
    by simp
  show ?thesis
    using None room len cnt members_set_count[OF None, of "length (heap s)"]
    by (simp add: ensure_def addDatum_def Let_def tidy_def)
qed

lemma invoke_succeeds:
  "members s m = Some p \<Longrightarrow> p < length (heap s) \<Longrightarrow> \<exists>s'. invoke m f s = Ok s'"
  by (simp add: invoke_def)

lemma tidy_frame:
  "members s' = members s \<Longrightarrow> mDeviceData s' = mDeviceData s \<Longrightarrow>
   mNumDeviceData s' = mNumDeviceData s \<Longrightarrow> tidy s' = tidy s"
  by (simp add: tidy_def)

lemma invoke_tidy: "tidy s \<Longrightarrow> invoke m f s = Ok s' \<Longrightarrow> tidy s'"
  using invoke_Ok[of m f s s'] tidy_frame[of s' s] by auto

lemma Available_set_succeeds:
  assumes "sound s" and "wired s" and "tidy s"
  shows "\<exists>s'. Available_set True s = Ok s' \<and> tidy s'"
proof -
  from ensure_succeeds[OF assms(3), of p_availability "Availability ''avail''"]
  obtain s1 where s1: "ensure p_availability (Availability ''avail'') s = Ok s1" "tidy s1"
    by blast
  from ensure_keeps[OF assms(1,2) s1(1)]
  obtain p where p: "members s1 p_availability = Some p" "p < length (heap s1)"
    by blast
  from invoke_succeeds[OF p, of available]
  obtain s' where s': "invoke p_availability available s1 = Ok s'"
    by blast
  with s1 invoke_tidy[OF s1(2) s'] show ?thesis
    by (simp add: Available_set_def andThen_Ok)
qed

lemma writeChannel_succeeds:
  assumes "sound s" and "wired s" and "tidy s"
  shows "\<exists>s'. writeChannel m fresh aValue s = Ok s' \<and> tidy s'"
proof -
  from ensure_succeeds[OF assms(3), of m fresh]
  obtain s1 where s1: "ensure m fresh s = Ok s1" "tidy s1"
    by blast
  from ensure_keeps[OF assms(1,2) s1(1)]
  obtain p where p: "members s1 m = Some p" "p < length (heap s1)" and k1: "sound s1" "wired s1"
    by blast
  from invoke_succeeds[OF p, of "setValue aValue"]
  obtain s2 where s2: "invoke m (setValue aValue) s1 = Ok s2"
    by blast
  from invoke_keeps[OF k1 s2] have k2: "sound s2" "wired s2"
    by simp_all
  from Available_set_succeeds[OF k2 invoke_tidy[OF s1(2) s2]]
  obtain s' where "Available_set True s2 = Ok s'" "tidy s'"
    by blast
  with s1 s2 show ?thesis
    by (simp add: writeChannel_def andThen_Ok)
qed

lemma ready_newPulseAdapter: "ready newPulseAdapter"
  using idle_newPulseAdapter wired_newPulseAdapter
  by (simp add: ready_def tidy_def newPulseAdapter_def)

text \<open>A write of a channel touches neither the buffer nor the server.\<close>

lemma ensure_wire: "ensure m fresh s = Ok s' \<Longrightarrow> mBuffer s' = mBuffer s \<and> mServer s' = mServer s"
  using ensure_new[of s m fresh s'] ensure_old[of s m _ fresh]
  by (cases "members s m") auto

lemma invoke_wire: "invoke m f s = Ok s' \<Longrightarrow> mBuffer s' = mBuffer s \<and> mServer s' = mServer s"
  using invoke_Ok[of m f s s'] by auto

lemma perform_wire:
  assumes "perform w s = Ok s'"
  shows "mBuffer s' = mBuffer s \<and> mServer s' = mServer s"
proof -
  from perform_writeChannel[of w] obtain fresh where
    p: "perform w = writeChannel (channel w) fresh (written w)"
    by blast
  from assms[unfolded p] obtain s1 s2 s3 where
    "ensure (channel w) fresh s = Ok s1" "invoke (channel w) (setValue (written w)) s1 = Ok s2"
    "ensure p_availability (Availability ''avail'') s2 = Ok s3" "invoke p_availability available s3 = Ok s'"
    by (auto simp add: writeChannel_def Available_set_def andThen_Ok_iff)
  then show ?thesis
    using ensure_wire invoke_wire by metis
qed

text \<open>
  C8. From a ready PulseAdapter (as constructed, or as earlier writes left it)
  every write of a monitored channel (X, Y, Z, U, V, W, A, B, C, Feedrate,
  SpindleSpeed, SpindleLoad, FeedrateOverride, SpindleSpeedOverride, Manual,
  Running, ProgramName) returns normally. Afterwards the channel's datum is
  registered and holds the written value, and the availability datum is
  registered and AVAILABLE, each created and registered by the write if it was
  not there; the two are different objects, and the adapter is ready again.
\<close>

theorem write_asserts_availability:
  assumes "ready s"
  shows "\<exists>s' pa pc. perform w s = Ok s'
            \<and> members s' p_availability = Some pa \<and> members s' (channel w) = Some pc \<and> pa \<noteq> pc
            \<and> pa \<in> set (registry s') \<and> pc \<in> set (registry s')
            \<and> mValue (heap s' ! pa) = eAVAILABLE \<and> mValue (heap s' ! pc) = written w
            \<and> ready s'"
proof -
  from perform_writeChannel[of w] obtain fresh where
    c: "channel w \<noteq> p_availability" and p: "perform w = writeChannel (channel w) fresh (written w)"
    by blast
  from assms have i: "idle s" and s: "sound s" and w: "wired s" and t: "tidy s"
    by (simp_all add: ready_def idle_def)
  from writeChannel_succeeds[OF s w t, of "channel w" fresh "written w"]
  obtain s' where s': "writeChannel (channel w) fresh (written w) s = Ok s'" "tidy s'"
    by blast
  from writeChannel_keeps[OF s w c s'(1)] i s' show ?thesis
    unfolding p by (auto simp add: idle_def ready_def)
qed

theorem write_asserts_availability_witness:
  "ready newPulseAdapter
   \<and> (\<exists>s'. perform (SetX 1.5) newPulseAdapter = Ok s'
         \<and> members s' p_x = Some 0 \<and> members s' p_availability = Some 1
         \<and> registry s' = [0, 1]
         \<and> mValue (heap s' ! 0) = Number 1.5 \<and> mValue (heap s' ! 1) = eAVAILABLE
         \<and> ready s')"
proof -
  have a: "ready newPulseAdapter" by (rule ready_newPulseAdapter)
  obtain s0 where c: "perform (SetX 1.5) newPulseAdapter = Ok s0"
    "members s0 p_x = Some 0" "members s0 p_availability = Some 1" "registry s0 = [0, 1]"
    by (simp add: X_set_def writeChannel_def ensure_def invoke_def Available_set_def andThen_def
      addDatum_def newPulseAdapter_def Let_def registry_def pointersAt_def)
  from write_asserts_availability[OF a, of "SetX 1.5"] a c show ?thesis
    by auto
qed

end
